theory Spec2Isabelle
  imports Main "HOL-Library.Word" "HOL-Library.Signed_Division"
begin

unbundle bit_operations_syntax

section \<open>Machine types, errors and Go primitives\<close>

text \<open>
  Go's \<open>byte\<close>, \<open>int32\<close>/\<open>uint32\<close> and \<open>int64\<close> are words of 8, 32 and 64 bits.
  Signed values are read with \<open>sint\<close>, unsigned ones with \<open>unat\<close>; \<open>+\<close> and \<open>-\<close> wrap
  around as Go's do. A slice is modelled by the list of its elements, its capacity being
  its length.
\<close>

type_synonym byte = "8 word"
type_synonym int32 = "32 word"
type_synonym uint32 = "32 word"
type_synonym int64 = "64 word"

text \<open>
  The error values of the package, one constructor each. \<open>ErrIO\<close> stands for any error
  of the file layer (\<open>os.File\<close>, \<open>bufio\<close>) other than \<open>io.EOF\<close>, which is \<open>ErrEOF\<close>.
  The last two constructors are Go's run-time panics: an index expression out of range
  and a slice expression out of bounds.
\<close>

datatype error =
    ErrNeedleHeaderMagic | ErrNeedleFlag | ErrNeedleSize
  | ErrNeedleFooterMagic | ErrNeedleChecksum | ErrNeedlePadding
  | ErrNeedleTooLarge | ErrNoNeedle | ErrNeedleDeleted
  | ErrNeedleKey | ErrNeedleCookie | ErrVolumeDel
  | ErrIO | ErrEOF
  | PanicIndex | PanicSlice

definition is_panic :: "error \<Rightarrow> bool" where
  "is_panic e = (e = PanicIndex \<or> e = PanicSlice)"

text \<open>Sequencing of fallible steps: the first error or panic ends the function.\<close>

definition andThen :: "error + 'a \<Rightarrow> ('a \<Rightarrow> error + 'b) \<Rightarrow> error + 'b" where
  "andThen r f = (case r of Inl e \<Rightarrow> Inl e | Inr x \<Rightarrow> f x)"

text \<open>Go's \<open>%\<close> on \<open>int32\<close>: the remainder of the division that truncates towards zero.\<close>

definition rem32 :: "int32 \<Rightarrow> int32 \<Rightarrow> int32" where
  "rem32 a b = word_of_int (sint a smod sint b)"

text \<open>Go's \<open>/\<close> on \<open>int64\<close>: division truncating towards zero.\<close>

definition quot64 :: "int64 \<Rightarrow> int64 \<Rightarrow> int64" where
  "quot64 a b = word_of_int (sint a sdiv sint b)"

text \<open>
  The slice expressions \<open>buf[lo:]\<close>, \<open>buf[:hi]\<close> and \<open>buf[lo:hi]\<close> with their bounds
  checks (the bounds are Go integers, given here as \<open>int\<close>), the index expression on a
  table, and the built-in \<open>copy(buf[off:], src)\<close>, which copies as many bytes as both
  sides have.
\<close>

definition sliceFrom :: "int \<Rightarrow> 'a list \<Rightarrow> error + 'a list" where
  "sliceFrom lo buf =
     (if 0 \<le> lo \<and> lo \<le> int (length buf) then Inr (drop (nat lo) buf) else Inl PanicSlice)"

definition sliceTo :: "int \<Rightarrow> 'a list \<Rightarrow> error + 'a list" where
  "sliceTo hi buf =
     (if 0 \<le> hi \<and> hi \<le> int (length buf) then Inr (take (nat hi) buf) else Inl PanicSlice)"

definition sliceRange :: "int \<Rightarrow> int \<Rightarrow> 'a list \<Rightarrow> error + 'a list" where
  "sliceRange lo hi buf =
     (if 0 \<le> lo \<and> lo \<le> hi \<and> hi \<le> int (length buf)
      then Inr (take (nat (hi - lo)) (drop (nat lo) buf)) else Inl PanicSlice)"

definition index :: "'a list \<Rightarrow> int \<Rightarrow> error + 'a" where
  "index xs i = (if 0 \<le> i \<and> i < int (length xs) then Inr (xs ! nat i) else Inl PanicIndex)"

definition copyAt :: "nat \<Rightarrow> byte list \<Rightarrow> byte list \<Rightarrow> error + byte list" where
  "copyAt off src buf =
     (if off \<le> length buf
      then (let k = min (length buf - off) (length src)
            in Inr (take off buf @ take k src @ drop (off + k) buf))
      else Inl PanicSlice)"

subsection \<open>BigEndian\<close>

text \<open>
  Modelled from the spec: the \<open>BigEndian\<close> helper (\<open>Int32\<close>, \<open>Int64\<close>, \<open>Uint32\<close>,
  \<open>PutInt32\<close>, \<open>PutInt64\<close>, \<open>PutUint32\<close> and the \<open>Write\<close> variants) is not among the
  source files. The spec fixes the format: every multi-byte integer is big-endian, the most
  significant byte first. A slice shorter than the integer makes the index expressions
  of the helper panic.
\<close>

definition be32 :: "32 word \<Rightarrow> byte list" where
  "be32 v = [ucast (drop_bit 24 v), ucast (drop_bit 16 v), ucast (drop_bit 8 v), ucast v]"

definition be64 :: "64 word \<Rightarrow> byte list" where
  "be64 v = [ucast (drop_bit 56 v), ucast (drop_bit 48 v), ucast (drop_bit 40 v),
             ucast (drop_bit 32 v), ucast (drop_bit 24 v), ucast (drop_bit 16 v),
             ucast (drop_bit 8 v), ucast v]"

definition BigEndian_Uint32 :: "byte list \<Rightarrow> error + uint32" where
  "BigEndian_Uint32 b =
     (if length b < 4 then Inl PanicIndex
      else Inr (push_bit 24 (ucast (b ! 0)) OR push_bit 16 (ucast (b ! 1))
                OR push_bit 8 (ucast (b ! 2)) OR ucast (b ! 3)))"

definition BigEndian_Int32 :: "byte list \<Rightarrow> error + int32" where
  "BigEndian_Int32 b = BigEndian_Uint32 b"

definition BigEndian_Int64 :: "byte list \<Rightarrow> error + int64" where
  "BigEndian_Int64 b =
     (if length b < 8 then Inl PanicIndex
      else Inr (push_bit 56 (ucast (b ! 0)) OR push_bit 48 (ucast (b ! 1))
                OR push_bit 40 (ucast (b ! 2)) OR push_bit 32 (ucast (b ! 3))
                OR push_bit 24 (ucast (b ! 4)) OR push_bit 16 (ucast (b ! 5))
                OR push_bit 8 (ucast (b ! 6)) OR ucast (b ! 7)))"

text \<open>\<open>BigEndian.PutInt64(buf[off:], v)\<close> and its 32-bit siblings, on the whole buffer.\<close>

definition putAt :: "nat \<Rightarrow> byte list \<Rightarrow> byte list \<Rightarrow> error + byte list" where
  "putAt off bs buf =
     (if length buf < off then Inl PanicSlice
      else if length buf - off < length bs then Inl PanicIndex
      else Inr (take off buf @ bs @ drop (off + length bs) buf))"

definition BigEndian_PutInt64 :: "nat \<Rightarrow> int64 \<Rightarrow> byte list \<Rightarrow> error + byte list" where
  "BigEndian_PutInt64 off v buf = putAt off (be64 v) buf"

definition BigEndian_PutInt32 :: "nat \<Rightarrow> int32 \<Rightarrow> byte list \<Rightarrow> error + byte list" where
  "BigEndian_PutInt32 off v buf = putAt off (be32 v) buf"

definition BigEndian_PutUint32 :: "nat \<Rightarrow> uint32 \<Rightarrow> byte list \<Rightarrow> error + byte list" where
  "BigEndian_PutUint32 off v buf = putAt off (be32 v) buf"

subsection \<open>The checksum\<close>

text \<open>
  \<open>crc32.MakeTable(crc32.Koopman)\<close> and \<open>crc32.Update\<close> of Go's standard library
  \<open>hash/crc32\<close>: for a table other than IEEE and Castagnoli the library fills the table
  bit by bit (\<open>simplePopulateTable\<close>) and updates byte by byte (\<open>simpleUpdate\<close>), with
  the checksum complemented on the way in and on the way out.
\<close>

definition Koopman :: uint32 where
  "Koopman = 0xeb31d82e"

definition crcBit :: "uint32 \<Rightarrow> uint32" where
  "crcBit crc = (if crc AND 1 = 1 then drop_bit 1 crc XOR Koopman else drop_bit 1 crc)"

definition crc32Table :: "byte \<Rightarrow> uint32" where
  "crc32Table i = (crcBit ^^ 8) (ucast i)"

definition crcByte :: "byte \<Rightarrow> uint32 \<Rightarrow> uint32" where
  "crcByte v crc = crc32Table (ucast crc XOR v) XOR drop_bit 8 crc"

definition crc32_Update :: "uint32 \<Rightarrow> byte list \<Rightarrow> uint32" where
  "crc32_Update crc p = NOT (fold crcByte p (NOT crc))"

section \<open>Needles (needle.go)\<close>

abbreviation (input) NeedleMaxSize :: int where "NeedleMaxSize \<equiv> 5 * 1024 * 1024"
abbreviation (input) needleMagicSize :: nat where "needleMagicSize \<equiv> 4"
abbreviation (input) needleCookieSize :: nat where "needleCookieSize \<equiv> 8"
abbreviation (input) needleKeySize :: nat where "needleKeySize \<equiv> 8"
abbreviation (input) needleFlagSize :: nat where "needleFlagSize \<equiv> 1"
abbreviation (input) needleSizeSize :: nat where "needleSizeSize \<equiv> 4"
abbreviation (input) needleChecksumSize :: nat where "needleChecksumSize \<equiv> 4"
abbreviation (input) NeedleHeaderSize :: nat where
  "NeedleHeaderSize \<equiv> needleMagicSize + needleCookieSize + needleKeySize
                        + needleFlagSize + needleSizeSize"
abbreviation (input) NeedleFooterSize :: nat where
  "NeedleFooterSize \<equiv> needleMagicSize + needleChecksumSize"
abbreviation (input) NeedlePaddingSize :: int32 where "NeedlePaddingSize \<equiv> 8"
abbreviation (input) NeedleStatusOK :: byte where "NeedleStatusOK \<equiv> 0"
abbreviation (input) NeedleStatusDel :: byte where "NeedleStatusDel \<equiv> 1"
abbreviation (input) NeedleCacheDelOffset :: uint32 where "NeedleCacheDelOffset \<equiv> 0"

definition needlePadding :: "byte list list" where
  "needlePadding =
     [ [],
       [0],
       [0, 0],
       [0, 0, 0],
       [0, 0, 0, 0],
       [0, 0, 0, 0, 0],
       [0, 0, 0, 0, 0, 0],
       [0, 0, 0, 0, 0, 0, 0] ]"

definition needleHeaderMagic :: "byte list" where
  "needleHeaderMagic = [0x12, 0x34, 0x56, 0x78]"

definition needleFooterMagic :: "byte list" where
  "needleFooterMagic = [0x87, 0x65, 0x43, 0x21]"

subsection \<open>NeedleCache\<close>

type_synonym NeedleCache = int64

definition NewNeedleCache :: "uint32 \<Rightarrow> int32 \<Rightarrow> NeedleCache" where
  "NewNeedleCache offset sz = push_bit 32 (ucast offset) + scast sz"

definition Value :: "NeedleCache \<Rightarrow> uint32 \<times> int32" where
  "Value n = (ucast (signed_drop_bit 32 n), ucast n)"

subsection \<open>Parsing\<close>

record Needle =
  HeaderMagic :: "byte list"
  Cookie :: int64
  Key :: int64
  Flag :: byte
  Size :: int32
  Data :: "byte list"
  FooterMagic :: "byte list"
  Checksum :: uint32
  PaddingSize :: int32
  Padding :: "byte list"
  DataSize :: int

definition emptyNeedle :: Needle where
  "emptyNeedle = \<lparr>HeaderMagic = [], Cookie = 0, Key = 0, Flag = 0, Size = 0, Data = [],
     FooterMagic = [], Checksum = 0, PaddingSize = 0, Padding = [], DataSize = 0\<rparr>"

text \<open>
  \<open>ParseHeader\<close> and \<open>ParseData\<close> fill the fields of the needle they are called on.
  The model returns the needle as it is when the function returns \<open>nil\<close>, and the error
  (or the panic) otherwise.
\<close>

definition ParseHeader :: "Needle \<Rightarrow> byte list \<Rightarrow> error + Needle" where
  "ParseHeader n buf =
     andThen (sliceTo (int needleMagicSize) buf) (\<lambda>hm.
       if hm \<noteq> needleHeaderMagic then Inl ErrNeedleHeaderMagic
       else
     andThen (sliceFrom (int needleMagicSize) buf) (\<lambda>b1.
     andThen (BigEndian_Int64 b1) (\<lambda>cookie.
     andThen (sliceFrom (int (needleMagicSize + needleCookieSize)) buf) (\<lambda>b2.
     andThen (BigEndian_Int64 b2) (\<lambda>key.
     andThen (index buf (int (needleMagicSize + needleCookieSize + needleKeySize))) (\<lambda>flag.
       if flag \<noteq> NeedleStatusOK \<and> flag \<noteq> NeedleStatusDel then Inl ErrNeedleFlag
       else
     andThen (sliceFrom (int (needleMagicSize + needleCookieSize + needleKeySize
                              + needleFlagSize)) buf) (\<lambda>b3.
     andThen (BigEndian_Int32 b3) (\<lambda>sz.
       if NeedleMaxSize < sint sz \<or> sint sz < 1 then Inl ErrNeedleSize
       else
         (let ps = NeedlePaddingSize
                   - rem32 (of_nat NeedleHeaderSize + sz + of_nat NeedleFooterSize)
                       NeedlePaddingSize
          in Inr (n\<lparr>HeaderMagic := hm, Cookie := cookie, Key := key, Flag := flag,
                    Size := sz, PaddingSize := ps,
                    DataSize := sint (sz + ps + of_nat NeedleFooterSize)\<rparr>))))))))))"

definition ParseData :: "Needle \<Rightarrow> byte list \<Rightarrow> error + Needle" where
  "ParseData n buf =
     andThen (sliceTo (sint (Size n)) buf) (\<lambda>dat.
     (let bn = Size n in
     andThen (sliceRange (sint bn) (sint (bn + of_nat needleMagicSize)) buf) (\<lambda>fm.
       if fm \<noteq> needleFooterMagic then Inl ErrNeedleFooterMagic
       else
     (let bn = bn + of_nat needleMagicSize;
          checksum = crc32_Update 0 dat in
     andThen (sliceRange (sint bn) (sint (bn + of_nat needleChecksumSize)) buf) (\<lambda>cb.
     andThen (BigEndian_Uint32 cb) (\<lambda>stored.
       if stored \<noteq> checksum then Inl ErrNeedleChecksum
       else
     (let bn = bn + of_nat needleChecksumSize in
     andThen (sliceRange (sint bn) (sint (bn + PaddingSize n)) buf) (\<lambda>pad.
     andThen (index needlePadding (sint (PaddingSize n))) (\<lambda>zeros.
       if pad \<noteq> zeros then Inl ErrNeedlePadding
       else Inr (n\<lparr>Data := dat, FooterMagic := fm, Checksum := stored,
                    Padding := pad\<rparr>))))))))))"

subsection \<open>Encoding\<close>

text \<open>
  \<open>FillNeedle\<close> writes into \<open>buf\<close> in place; the model returns the buffer after the
  call, or the panic. \<open>n\<close> is the running write position of the source, and \<open>sz\<close>
  its parameter \<open>size\<close>.
\<close>

definition FillNeedle ::
  "int32 \<Rightarrow> int32 \<Rightarrow> int64 \<Rightarrow> int64 \<Rightarrow> byte list \<Rightarrow> byte list \<Rightarrow> error + byte list" where
  "FillNeedle padding sz key cookie data buf =
     (let checksum = crc32_Update 0 data in
     andThen (sliceTo (int needleMagicSize) buf) (\<lambda>_.
     andThen (copyAt 0 needleHeaderMagic buf) (\<lambda>buf.
     (let n = needleMagicSize in
     andThen (BigEndian_PutInt64 n cookie buf) (\<lambda>buf.
     (let n = n + needleCookieSize in
     andThen (BigEndian_PutInt64 n key buf) (\<lambda>buf.
     (let n = n + needleKeySize in
     andThen (if n < length buf then Inr (buf[n := NeedleStatusOK]) else Inl PanicIndex) (\<lambda>buf.
     (let n = n + needleFlagSize in
     andThen (BigEndian_PutInt32 n sz buf) (\<lambda>buf.
     (let n = n + needleSizeSize in
     andThen (copyAt n data buf) (\<lambda>buf.
     (let n = n + length data in
     andThen (copyAt n needleFooterMagic buf) (\<lambda>buf.
     (let n = n + needleMagicSize in
     andThen (BigEndian_PutUint32 n checksum buf) (\<lambda>buf.
     (let n = n + needleChecksumSize in
     andThen (sliceFrom (int n) buf) (\<lambda>_.
     andThen (index needlePadding (sint padding)) (\<lambda>zeros.
       copyAt n zeros buf))))))))))))))))))))"

text \<open>
  \<open>WriteNeedle\<close> writes the same fields to a \<open>bufio.Writer\<close>. The writer is a
  parameter: \<open>wr bytes w\<close> is the outcome of handing \<open>bytes\<close> to the writer in state
  \<open>w\<close>, an error or the next state.
\<close>

definition WriteNeedle ::
  "(byte list \<Rightarrow> 'w \<Rightarrow> error + 'w) \<Rightarrow> 'w \<Rightarrow> int32 \<Rightarrow> int32 \<Rightarrow> int64 \<Rightarrow> int64 \<Rightarrow> byte list
     \<Rightarrow> error + 'w" where
  "WriteNeedle wr w padding sz key cookie data =
     andThen (wr needleHeaderMagic w) (\<lambda>w.
     andThen (wr (be64 cookie) w) (\<lambda>w.
     andThen (wr (be64 key) w) (\<lambda>w.
     andThen (wr [NeedleStatusOK] w) (\<lambda>w.
     andThen (wr (be32 sz) w) (\<lambda>w.
     andThen (wr data w) (\<lambda>w.
     andThen (wr needleFooterMagic w) (\<lambda>w.
     andThen (wr (be32 (crc32_Update 0 data)) w) (\<lambda>w.
     andThen (index needlePadding (sint padding)) (\<lambda>zeros.
       wr zeros w)))))))))"

text \<open>
  The layout of a record as the comment at the head of \<open>needle.go\<close> draws it, with
  \<open>p\<close> padding bytes: what \<open>FillNeedle\<close> is shown below to write.
\<close>

definition encoded :: "nat \<Rightarrow> int32 \<Rightarrow> int64 \<Rightarrow> int64 \<Rightarrow> byte list \<Rightarrow> byte list" where
  "encoded p sz key cookie data =
     needleHeaderMagic @ be64 cookie @ be64 key @ [NeedleStatusOK] @ be32 sz @ data
       @ needleFooterMagic @ be32 (crc32_Update 0 data) @ replicate p 0"

subsection \<open>Sizes and offsets\<close>

text \<open>
  \<open>NeedleSize\<close> returns the padding, the record size and the error (\<open>None\<close> for
  \<open>nil\<close>); the sums are those of \<open>int32\<close>.
\<close>

definition NeedleSize :: "int32 \<Rightarrow> int32 \<times> int32 \<times> error option" where
  "NeedleSize ds =
     (let sz = of_nat NeedleHeaderSize + ds + of_nat NeedleFooterSize;
          padding = NeedlePaddingSize - rem32 sz NeedlePaddingSize;
          sz = sz + padding
      in (padding, sz,
          if NeedleMaxSize < sint sz then Some ErrNeedleTooLarge else None))"

definition NeedleOffset :: "int64 \<Rightarrow> uint32" where
  "NeedleOffset offset = ucast (quot64 offset 8)"

text \<open>The errors that \<open>ParseHeader\<close> and \<open>ParseData\<close> can end with.\<close>

definition parseError :: "error \<Rightarrow> bool" where
  "parseError e \<longleftrightarrow> e \<in> {ErrNeedleHeaderMagic, ErrNeedleFlag, ErrNeedleSize, ErrNeedleFooterMagic,
     ErrNeedleChecksum, ErrNeedlePadding, PanicIndex, PanicSlice}"

section \<open>Volumes (volume.go)\<close>

abbreviation (input) volumeFinish :: uint32 where "volumeFinish \<equiv> 0"
abbreviation (input) volumeDelChNum :: nat where "volumeDelChNum \<equiv> 10240"
abbreviation (input) volumeDelMax :: nat where "volumeDelMax \<equiv> 50"

text \<open>
  \<open>SuperBlock\<close> is not among the source files, and of \<open>Indexer\<close> the volume only calls
  \<open>Add\<close> and \<open>Write\<close>, which go to the ring and to the buffered writer. The volume is
  therefore modelled over any storage: \<open>'b\<close> is the state of the super block and of the
  indexer together, and the record below holds their methods, each returning its error
  (or result) and the next state. \<open>block_Get st offset b s\<close> is the positioned read into
  the slice \<open>b\<close>: \<open>None\<close> when the read fails, which the volume sees as the error of
  the file layer, or the bytes now in the slice.
\<close>

record 'b Storage =
  block_Get :: "uint32 \<Rightarrow> byte list \<Rightarrow> 'b \<Rightarrow> byte list option"
  block_Add :: "int64 \<Rightarrow> int64 \<Rightarrow> byte list \<Rightarrow> 'b \<Rightarrow> (error + uint32 \<times> int32) \<times> 'b"
  block_Write :: "int64 \<Rightarrow> int64 \<Rightarrow> byte list \<Rightarrow> 'b \<Rightarrow> (error + uint32 \<times> int32) \<times> 'b"
  block_Del :: "uint32 \<Rightarrow> 'b \<Rightarrow> error option \<times> 'b"
  indexer_Add :: "int64 \<Rightarrow> uint32 \<Rightarrow> int32 \<Rightarrow> 'b \<Rightarrow> error option \<times> 'b"
  indexer_Write :: "int64 \<Rightarrow> uint32 \<Rightarrow> int32 \<Rightarrow> 'b \<Rightarrow> error option \<times> 'b"

text \<open>
  The volume: \<open>signal\<close> is the buffered channel of deleted offsets, the oldest first.
  Every method below is one call running alone; the mutex of the source is not modelled.
\<close>

record 'b Volume =
  Id :: int32
  block :: 'b
  needles :: "int64 \<rightharpoonup> NeedleCache"
  signal :: "uint32 list"
  Compress :: bool
  compressKeys :: "int64 list"

text \<open>What a read leaves in a slice: the slice keeps its length.\<close>

definition readInto :: "byte list \<Rightarrow> byte list \<Rightarrow> byte list" where
  "readInto r b = take (length b) (r @ drop (length r) b)"

text \<open>
  The middle of \<open>Get\<close>, from the positioned read to the end of \<open>ParseData\<close>: the
  needle read at \<open>offset\<close> through the scratch buffer \<open>buf\<close>, or the first error.
\<close>

definition readNeedle ::
  "'b Storage \<Rightarrow> 'b Volume \<Rightarrow> uint32 \<Rightarrow> int32 \<Rightarrow> byte list \<Rightarrow> error + Needle" where
  "readNeedle st v offset sz buf =
     andThen (sliceTo (sint sz) buf) (\<lambda>b.
     andThen (case block_Get st offset b (block v) of
                None \<Rightarrow> Inl ErrIO
              | Some r \<Rightarrow> Inr r) (\<lambda>r.
     (let buf = readInto r b @ drop (length b) buf in
     andThen (sliceTo (int NeedleHeaderSize) buf) (\<lambda>hb.
     andThen (ParseHeader emptyNeedle hb) (\<lambda>needle.
     andThen (sliceFrom (int NeedleHeaderSize) buf) (\<lambda>db.
       ParseData needle db))))))"

definition Get ::
  "'b Storage \<Rightarrow> 'b Volume \<Rightarrow> int64 \<Rightarrow> int64 \<Rightarrow> byte list \<Rightarrow> (error + byte list) \<times> 'b Volume" where
  "Get st v key cookie buf =
     (case needles v key of
        None \<Rightarrow> (Inl ErrNoNeedle, v)
      | Some needleCache \<Rightarrow>
          (let (offset, sz) = Value needleCache in
           if offset = NeedleCacheDelOffset then (Inl ErrNeedleDeleted, v)
           else
             (case readNeedle st v offset sz buf of
                Inl err \<Rightarrow> (Inl err, v)
              | Inr needle \<Rightarrow>
                  if Key needle \<noteq> key then (Inl ErrNeedleKey, v)
                  else if Cookie needle \<noteq> cookie then (Inl ErrNeedleCookie, v)
                  else if Flag needle = NeedleStatusDel
                  then (Inl ErrNeedleDeleted,
                        v\<lparr>needles := (needles v)(key \<mapsto> NewNeedleCache NeedleCacheDelOffset sz)\<rparr>)
                  else (Inr (Data needle), v))))"

definition asyncDel :: "'b Volume \<Rightarrow> uint32 \<Rightarrow> error option \<times> 'b Volume" where
  "asyncDel v offset =
     (if length (signal v) < volumeDelChNum
      then (None, v\<lparr>signal := signal v @ [offset]\<rparr>)
      else (Some ErrVolumeDel, v))"

definition Add ::
  "'b Storage \<Rightarrow> 'b Volume \<Rightarrow> int64 \<Rightarrow> int64 \<Rightarrow> byte list \<Rightarrow> error option \<times> 'b Volume" where
  "Add st v key cookie data =
     (let old = needles v key in
      case block_Add st key cookie data (block v) of
        (Inl err, b) \<Rightarrow> (Some err, v\<lparr>block := b\<rparr>)
      | (Inr (offset, sz), b) \<Rightarrow>
          (case indexer_Add st key offset sz b of
             (Some err, b) \<Rightarrow> (Some err, v\<lparr>block := b\<rparr>)
           | (None, b) \<Rightarrow>
               (let v = v\<lparr>block := b, needles := (needles v)(key \<mapsto> NewNeedleCache offset sz)\<rparr>
                in case old of
                     None \<Rightarrow> (None, v)
                   | Some needleCache \<Rightarrow>
                       (let (ooffset, osize) = Value needleCache in asyncDel v ooffset))))"


definition Del :: "'b Volume \<Rightarrow> int64 \<Rightarrow> error option \<times> 'b Volume" where
  "Del v key =
     (case needles v key of
        None \<Rightarrow> (Some ErrNoNeedle, v)
      | Some needleCache \<Rightarrow>
          (let (offset, sz) = Value needleCache;
               v = v\<lparr>needles := (needles v)(key \<mapsto> NewNeedleCache NeedleCacheDelOffset sz),
                      compressKeys := (if Compress v then compressKeys v @ [key]
                                       else compressKeys v)\<rparr>
           in asyncDel v offset))"

subsection \<open>The delete goroutine\<close>

text \<open>
  The goroutine \<open>del\<close> waits in a \<open>select\<close> for the next offset on \<open>signal\<close> or for the
  timer. Its run is given by the events it sees, in order; a receive on the closed channel
  is \<open>Recv 0\<close>, the zero value Go delivers. The result says whether the goroutine has
  returned, which offsets it still holds, and the state of the super block.
\<close>

datatype event = Recv uint32 | Timer

fun delRange :: "'b Storage \<Rightarrow> uint32 list \<Rightarrow> 'b \<Rightarrow> 'b" where
  "delRange st [] b = b"
| "delRange st (offset # offsets) b =
     (case block_Del st offset b of
        (Some err, b) \<Rightarrow> b
      | (None, b) \<Rightarrow> delRange st offsets b)"

fun del :: "'b Storage \<Rightarrow> event list \<Rightarrow> uint32 list \<Rightarrow> 'b \<Rightarrow> bool \<times> uint32 list \<times> 'b" where
  "del st [] offsets b = (False, offsets, b)"
| "del st (Recv offset # evs) offsets b =
     (if offset = volumeFinish then (True, offsets, b)
      else (let offsets = offsets @ [offset] in
            if length offsets < volumeDelMax then del st evs offsets b
            else del st evs [] (delRange st (sort offsets) b)))"
| "del st (Timer # evs) offsets b =
     (if length offsets = 0 then del st evs offsets b
      else del st evs [] (delRange st (sort offsets) b))"

subsection \<open>An example volume\<close>

text \<open>
  A storage whose super block holds, wherever it is read, the 40-byte record of the
  needle with key 7, cookie 42 and the one data byte \<open>0xAA\<close>, and which accepts every
  needle at block offset 5; and a volume that has this needle in its cache at block
  offset 1. They serve as the concrete inputs at which the theorems below are applied.
\<close>

definition exampleStorage :: "unit Storage" where
  "exampleStorage =
     \<lparr>block_Get = (\<lambda>offset b s. Some (encoded 6 1 7 42 [0xAA])),
      block_Add = (\<lambda>key cookie data s. (Inr (5, 40), s)),
      block_Write = (\<lambda>key cookie data s. (Inr (5, 40), s)),
      block_Del = (\<lambda>offset s. (None, s)),
      indexer_Add = (\<lambda>key offset sz s. (None, s)),
      indexer_Write = (\<lambda>key offset sz s. (None, s))\<rparr>"

definition exampleVolume :: "unit Volume" where
  "exampleVolume =
     \<lparr>Id = 1, block = (), needles = [7 \<mapsto> NewNeedleCache 1 40], signal = [],
      Compress = False, compressKeys = []\<rparr>"

section \<open>The index file (Indexer.Recovery)\<close>

abbreviation (input) indexKeySize :: nat where "indexKeySize \<equiv> 8"
abbreviation (input) indexOffsetSize :: nat where "indexOffsetSize \<equiv> 4"
abbreviation (input) indexSizeSize :: nat where "indexSizeSize \<equiv> 4"
abbreviation (input) indexSize :: nat where
  "indexSize \<equiv> indexKeySize + indexOffsetSize + indexSizeSize"
abbreviation (input) indexKeyOffset :: nat where "indexKeyOffset \<equiv> 0"
abbreviation (input) indexOffsetOffset :: nat where
  "indexOffsetOffset \<equiv> indexKeyOffset + indexKeySize"
abbreviation (input) indexSizeOffset :: nat where
  "indexSizeOffset \<equiv> indexOffsetOffset + indexOffsetSize"

record Index =
  ixKey :: int64
  ixOffset :: uint32
  ixSize :: int32

definition parse :: "byte list \<Rightarrow> error + Index" where
  "parse buf =
     andThen (BigEndian_Int64 buf) (\<lambda>k.
     andThen (sliceFrom (int indexOffsetOffset) buf) (\<lambda>b1.
     andThen (BigEndian_Uint32 b1) (\<lambda>off.
     andThen (sliceFrom (int indexSizeOffset) buf) (\<lambda>b2.
     andThen (BigEndian_Int32 b2) (\<lambda>sz.
       Inr \<lparr>ixKey = k, ixOffset = off, ixSize = sz\<rparr>)))))"

text \<open>
  The index file as \<open>Recovery\<close> sees it: its bytes, the position of the file
  (\<open>None\<close> once the buffered reader has read ahead, which leaves the position wherever
  the reader got to), and which system calls fail: \<open>seekFails n\<close> for a seek to byte
  \<open>n\<close>, \<open>readFails n\<close> for the read that \<open>Peek\<close> needs at byte \<open>n\<close>.
\<close>

record IndexFile =
  contents :: "byte list"
  position :: "nat option"
  seekFails :: "nat \<Rightarrow> bool"
  readFails :: "nat \<Rightarrow> bool"

text \<open>
  The loop of \<open>Recovery\<close>: \<open>offset\<close> is the local of the source, the number of bytes
  parsed so far. \<open>Peek\<close> returns \<open>io.EOF\<close> when fewer than \<open>indexSize\<close> bytes are left;
  \<open>Discard\<close> of bytes just peeked cannot fail. The result is the offset, the cache, the
  resume offset and \<open>err\<close> as they are when the loop is left.
\<close>

function recoveryLoop ::
  "IndexFile \<Rightarrow> nat \<Rightarrow> (int64 \<rightharpoonup> NeedleCache) \<Rightarrow> uint32
     \<Rightarrow> nat \<times> (int64 \<rightharpoonup> NeedleCache) \<times> uint32 \<times> error option" where
  "recoveryLoop f offset cache noffset =
     (if readFails f offset then (offset, cache, noffset, Some ErrIO)
      else if length (contents f) < offset + indexSize then (offset, cache, noffset, Some ErrEOF)
      else
        (case parse (take indexSize (drop offset (contents f))) of
           Inl err \<Rightarrow> (offset, cache, noffset, Some err)
         | Inr ix \<Rightarrow>
             if NeedleMaxSize < sint (ixSize ix) \<or> sint (ixSize ix) < 1
             then (offset, cache, noffset, None)
             else recoveryLoop f (offset + indexSize)
                    (cache(ixKey ix \<mapsto> NewNeedleCache (ixOffset ix) (ixSize ix)))
                    (ixOffset ix + NeedleOffset (scast (ixSize ix)))))"
  by pat_completeness auto
termination
  by (relation "measure (\<lambda>(f, offset, cache, noffset). length (contents f) - offset)") auto

text \<open>
  \<open>Recovery\<close> returns \<open>noffset\<close> and \<open>err\<close>; the model adds the cache and the file as
  the call leaves them.
\<close>

definition Recovery ::
  "IndexFile \<Rightarrow> (int64 \<rightharpoonup> NeedleCache)
     \<Rightarrow> uint32 \<times> error option \<times> (int64 \<rightharpoonup> NeedleCache) \<times> IndexFile" where
  "Recovery f cache =
     (if seekFails f 0 then (0, Some ErrIO, cache, f)
      else
        (let f = f\<lparr>position := Some 0\<rparr>;
             (offset, cache, noffset, err) = recoveryLoop f 0 cache 0;
             f = f\<lparr>position := None\<rparr>
         in if err \<noteq> Some ErrEOF then (noffset, err, cache, f)
            else if seekFails f offset then (noffset, Some ErrIO, cache, f)
            else (noffset, None, cache, f\<lparr>position := Some offset\<rparr>)))"

section \<open>Arithmetic of \<open>int32\<close>\<close>

lemma sint_add32:
  "- 2147483648 \<le> sint a + sint b \<Longrightarrow> sint a + sint b < 2147483648
     \<Longrightarrow> sint (a + b :: int32) = sint a + sint b"
  by (simp add: sint_word_ariths signed_take_bit_int_eq_self)

lemma sint_sub32:
  "- 2147483648 \<le> sint a - sint b \<Longrightarrow> sint a - sint b < 2147483648
     \<Longrightarrow> sint (a - b :: int32) = sint a - sint b"
  by (simp add: sint_word_ariths signed_take_bit_int_eq_self)

lemma sint_of_int32:
  "- 2147483648 \<le> i \<Longrightarrow> i < 2147483648 \<Longrightarrow> sint (word_of_int i :: int32) = i"
  by (simp add: sint_sbintrunc' signed_take_bit_int_eq_self)

lemma sint_rem32_8: "0 \<le> sint a \<Longrightarrow> sint (rem32 a 8) = sint a mod 8"
proof -
  assume a: "0 \<le> sint a"
  have "sint a smod 8 = sint a mod 8"
    using a by (simp add: signed_modulo_int_def sgn_if)
  moreover have "sint (word_of_int (sint a mod 8) :: int32) = sint a mod 8"
    by (intro sint_of_int32) presburger+
  ultimately show ?thesis by (simp add: rem32_def)
qed

text \<open>The padding and the padded size of a record whose unpadded size does not wrap.\<close>

lemma padding_sint:
  assumes "0 \<le> sint s" "sint s \<le> 2147483639"
  shows "sint (8 - rem32 s 8) = 8 - sint s mod 8"
    and "sint (s + (8 - rem32 s 8)) = sint s + (8 - sint s mod 8)"
proof -
  have m: "0 \<le> sint s mod 8" "sint s mod 8 < 8" by simp_all
  have r: "sint (rem32 s 8) = sint s mod 8"
    using assms by (simp add: sint_rem32_8)
  show p: "sint (8 - rem32 s 8) = 8 - sint s mod 8"
    using m by (simp add: sint_sub32 r)
  have "sint (s + (8 - rem32 s 8)) = sint s + sint (8 - rem32 s 8)"
    by (rule sint_add32; unfold p) (use assms m in linarith)+
  thus "sint (s + (8 - rem32 s 8)) = sint s + (8 - sint s mod 8)"
    by (simp only: p)
qed

lemma NeedleSize_eq:
  "NeedleSize d = (8 - rem32 (33 + d) 8, 33 + d + (8 - rem32 (33 + d) 8),
      if 5242880 < sint (33 + d + (8 - rem32 (33 + d) 8)) then Some ErrNeedleTooLarge else None)"
  by (simp add: NeedleSize_def Let_def)

section \<open>Big-endian integers\<close>

lemma bit_push_ucast_byte:
  "bit (push_bit j (ucast (b :: byte)) :: 'a::len word) m
     \<longleftrightarrow> j \<le> m \<and> m < j + 8 \<and> m < LENGTH('a) \<and> bit b (m - j)"
  by (auto simp: bit_simps dest: bit_imp_le_length)

lemma bit_ucast_drop_byte:
  "bit (ucast (drop_bit k (v :: 'a::len word)) :: byte) n \<longleftrightarrow> n < 8 \<and> bit v (k + n)"
  by (auto simp: bit_simps dest: bit_imp_le_length)

lemma bit_ucast_byte:
  "bit (ucast (v :: 'a::len word) :: byte) n \<longleftrightarrow> n < 8 \<and> bit v n"
  by (auto simp: bit_simps dest: bit_imp_le_length)

lemma bit_ucast_of_byte:
  "bit (ucast (b :: byte) :: 'a::len word) m \<longleftrightarrow> m < 8 \<and> m < LENGTH('a) \<and> bit b m"
  by (auto simp: bit_simps dest: bit_imp_le_length)


lemma bit_byte_part:
  "bit (push_bit k (ucast (ucast (drop_bit k v) :: byte)) :: 'a word) n \<longleftrightarrow> k \<le> n \<and> n < k + 8 \<and> bit v n"
  for v :: "'a::len word"
  by (auto simp: bit_push_ucast_byte bit_ucast_drop_byte dest: bit_imp_le_length)

lemma bit_byte_low:
  "bit (ucast (ucast v :: byte) :: 'a word) n \<longleftrightarrow> n < 8 \<and> bit v n"
  for v :: "'a::len word"
  by (auto simp only: bit_ucast_of_byte bit_ucast_byte dest: bit_imp_le_length)

lemma be32_join:
  "push_bit 24 (ucast (ucast (drop_bit 24 v) :: byte)) OR push_bit 16 (ucast (ucast (drop_bit 16 v) :: byte))
        OR push_bit 8 (ucast (ucast (drop_bit 8 v) :: byte)) OR ucast (ucast v :: byte) = v"
  for v :: "32 word"
proof (rule bit_word_eqI)
  fix n assume "n < LENGTH(32)"
  then have "n < 8 \<or> (8 \<le> n \<and> n < 8 + 8) \<or> (16 \<le> n \<and> n < 16 + 8) \<or> (24 \<le> n \<and> n < 24 + 8)"
    by fastforce
  then show "bit (push_bit 24 (ucast (ucast (drop_bit 24 v) :: byte)) OR push_bit 16 (ucast (ucast (drop_bit 16 v) :: byte))
        OR push_bit 8 (ucast (ucast (drop_bit 8 v) :: byte)) OR ucast (ucast v :: byte) :: 32 word) n = bit v n"
    unfolding bit_or_iff bit_byte_part bit_byte_low by blast
qed

lemma be64_join:
  "push_bit 56 (ucast (ucast (drop_bit 56 v) :: byte)) OR push_bit 48 (ucast (ucast (drop_bit 48 v) :: byte))
   OR push_bit 40 (ucast (ucast (drop_bit 40 v) :: byte)) OR push_bit 32 (ucast (ucast (drop_bit 32 v) :: byte))
   OR push_bit 24 (ucast (ucast (drop_bit 24 v) :: byte)) OR push_bit 16 (ucast (ucast (drop_bit 16 v) :: byte))
        OR push_bit 8 (ucast (ucast (drop_bit 8 v) :: byte)) OR ucast (ucast v :: byte) = v"
  for v :: "64 word"
proof (rule bit_word_eqI)
  fix n assume "n < LENGTH(64)"
  then have "n < 8 \<or> (8 \<le> n \<and> n < 8 + 8) \<or> (16 \<le> n \<and> n < 16 + 8) \<or> (24 \<le> n \<and> n < 24 + 8)
    \<or> (32 \<le> n \<and> n < 32 + 8) \<or> (40 \<le> n \<and> n < 40 + 8) \<or> (48 \<le> n \<and> n < 48 + 8) \<or> (56 \<le> n \<and> n < 56 + 8)"
    by fastforce
  then show "bit (push_bit 56 (ucast (ucast (drop_bit 56 v) :: byte)) OR push_bit 48 (ucast (ucast (drop_bit 48 v) :: byte))
   OR push_bit 40 (ucast (ucast (drop_bit 40 v) :: byte)) OR push_bit 32 (ucast (ucast (drop_bit 32 v) :: byte))
   OR push_bit 24 (ucast (ucast (drop_bit 24 v) :: byte)) OR push_bit 16 (ucast (ucast (drop_bit 16 v) :: byte))
        OR push_bit 8 (ucast (ucast (drop_bit 8 v) :: byte)) OR ucast (ucast v :: byte) :: 64 word) n = bit v n"
    unfolding bit_or_iff bit_byte_part bit_byte_low by blast
qed

lemma Uint32_be32: "BigEndian_Uint32 (be32 v @ rest) = Inr v"
  by (simp add: BigEndian_Uint32_def be32_def be32_join)

lemma Int64_be64: "BigEndian_Int64 (be64 v @ rest) = Inr v"
  by (simp add: BigEndian_Int64_def be64_def be64_join)

text \<open>The other direction, for the four bytes of a stored checksum.\<close>

lemma bit_join4:
  "bit (push_bit 24 (ucast b0) OR push_bit 16 (ucast b1) OR push_bit 8 (ucast b2) OR ucast b3 :: 32 word) m
   \<longleftrightarrow> (24 \<le> m \<and> m < 32 \<and> bit b0 (m - 24)) \<or> (16 \<le> m \<and> m < 24 \<and> bit b1 (m - 16))
       \<or> (8 \<le> m \<and> m < 16 \<and> bit b2 (m - 8)) \<or> (m < 8 \<and> bit b3 m)"
  for b0 b1 b2 b3 :: byte
  unfolding bit_or_iff bit_push_ucast_byte bit_ucast_of_byte by auto

lemma be32_of_bytes:
  "be32 (push_bit 24 (ucast b0) OR push_bit 16 (ucast b1) OR push_bit 8 (ucast b2) OR ucast b3) = [b0, b1, b2, b3]"
  for b0 b1 b2 b3 :: byte
proof -
  let ?w = "push_bit 24 (ucast b0) OR push_bit 16 (ucast b1) OR push_bit 8 (ucast b2) OR ucast b3 :: 32 word"
  have "ucast (drop_bit 24 ?w) = b0"
    by (rule bit_word_eqI; unfold bit_ucast_drop_byte bit_join4) auto
  moreover have "ucast (drop_bit 16 ?w) = b1"
    by (rule bit_word_eqI; unfold bit_ucast_drop_byte bit_join4) auto
  moreover have "ucast (drop_bit 8 ?w) = b2"
    by (rule bit_word_eqI; unfold bit_ucast_drop_byte bit_join4) auto
  moreover have "ucast ?w = b3"
    by (rule bit_word_eqI; unfold bit_ucast_byte bit_join4) auto
  ultimately show ?thesis
    by (simp only: be32_def)
qed

lemma be32_Uint32: "length b = 4 \<Longrightarrow> BigEndian_Uint32 b = Inr v \<Longrightarrow> be32 v = b"
proof -
  assume l: "length b = 4" and d: "BigEndian_Uint32 b = Inr v"
  from l obtain b0 b1 b2 b3 where b: "b = [b0, b1, b2, b3]"
    by (auto simp: length_Suc_conv numeral_eq_Suc)
  from d have "v = push_bit 24 (ucast b0) OR push_bit 16 (ucast b1) OR push_bit 8 (ucast b2) OR ucast b3"
    by (simp add: BigEndian_Uint32_def b)
  thus ?thesis by (simp only: be32_of_bytes b)
qed

section \<open>The checksum detects a changed byte\<close>

text \<open>
  One step of the table-driven update is eight steps of the bit-wise division, which is
  linear over \<open>XOR\<close> and injective because the polynomial has its top bit set. So two
  inputs of the same length that differ in one byte have different checksums.
\<close>

lemma crcBit_alt: "crcBit c = drop_bit 1 c XOR (if bit c 0 then Koopman else 0)"
  by (simp add: crcBit_def and_one_eq bit_0 mod_2_eq_odd)

lemma bit_Koopman_31: "bit Koopman 31"
  by (simp add: Koopman_def bit_numeral_word_iff) 

lemma crcBit_top: "bit (crcBit c) 31 = bit c 0"
  by (auto simp: crcBit_alt bit_xor_iff bit_drop_bit_eq bit_Koopman_31 dest: bit_imp_le_length)
  
lemma xor_cancel_right: "a XOR k = b XOR k \<Longrightarrow> a = b" for a b k :: "'a::len word"
proof -
  assume "a XOR k = b XOR k"
  hence "(a XOR k) XOR k = (b XOR k) XOR k" by simp
  thus ?thesis by (simp add: xor.assoc)
qed

lemma xor_cancel_left: "k XOR a = k XOR b \<Longrightarrow> a = b" for a b k :: "'a::len word"
  using xor_cancel_right [of a k b] by (simp add: xor.commute)

lemma crcBit_inj: "crcBit a = crcBit b \<Longrightarrow> a = b"
proof -
  assume e: "crcBit a = crcBit b"
  have b0: "bit a 0 = bit b 0"
    using crcBit_top [of a] crcBit_top [of b] e by simp
  have d: "drop_bit 1 a = drop_bit 1 b"
    using e b0 by (auto simp: crcBit_alt split: if_splits dest: xor_cancel_right)
  show "a = b"
  proof (rule bit_word_eqI)
    fix n
    show "bit a n = bit b n"
    proof (cases n)
      case 0 thus ?thesis using b0 by simp
    next
      case (Suc m)
      have "bit (drop_bit 1 a) m = bit (drop_bit 1 b) m" by (simp only: d)
      thus ?thesis by (simp add: bit_drop_bit_eq Suc)
    qed
  qed
qed

lemma crcBit_xor: "crcBit (x XOR y) = crcBit x XOR crcBit y"
  by (rule bit_word_eqI) (auto simp: crcBit_alt bit_xor_iff bit_drop_bit_eq)

lemma crcBits_inj: "(crcBit ^^ k) a = (crcBit ^^ k) b \<Longrightarrow> a = b"
  by (induction k) (auto dest: crcBit_inj)

lemma crcBits_xor: "(crcBit ^^ k) (x XOR y) = (crcBit ^^ k) x XOR (crcBit ^^ k) y"
  by (induction k) (simp_all add: crcBit_xor)

lemma crcBits_shift: "take_bit k h = 0 \<Longrightarrow> (crcBit ^^ k) h = drop_bit k h"
proof (induction k arbitrary: h)
  case 0 thus ?case by simp
next
  case (Suc k)
  have z: "\<not> bit h 0"
  proof
    assume "bit h 0"
    hence "bit (take_bit (Suc k) h) 0" by (simp add: bit_take_bit_iff)
    thus False using Suc.prems by simp
  qed
  have t: "take_bit k (drop_bit 1 h) = 0"
  proof (rule bit_word_eqI)
    fix n
    have "bit (take_bit (Suc k) h) (Suc n) = False" using Suc.prems by simp
    thus "bit (take_bit k (drop_bit 1 h)) n = bit (0 :: uint32) n"
      by (simp add: bit_take_bit_iff bit_drop_bit_eq)
  qed
  have "(crcBit ^^ Suc k) h = (crcBit ^^ k) (crcBit h)"
    by (simp add: funpow_swap1)
  also have "crcBit h = drop_bit 1 h" using z by (simp add: crcBit_alt)
  also have "(crcBit ^^ k) (drop_bit 1 h) = drop_bit k (drop_bit 1 h)"
    by (rule Suc.IH [OF t])
  finally show ?case by (simp add: drop_bit_drop_bit)
qed

lemma crc_split: "c XOR ucast v = ucast (ucast c XOR v :: byte) XOR push_bit 8 (drop_bit 8 c)"
  for c :: uint32 and v :: byte
  by (rule bit_word_eqI) (auto simp: bit_simps dest: bit_imp_le_length)

lemma crcByte_bits: "crcByte v c = (crcBit ^^ 8) (c XOR ucast v)"
proof -
  have "take_bit 8 (push_bit 8 (drop_bit 8 c)) = (0 :: uint32)"
    by (rule bit_word_eqI) (simp add: bit_simps)
  hence "(crcBit ^^ 8) (push_bit 8 (drop_bit 8 c)) = drop_bit 8 (push_bit 8 (drop_bit 8 c))"
    by (rule crcBits_shift)
  also have "\<dots> = drop_bit 8 c"
    by (rule bit_word_eqI) (auto simp: bit_simps dest: bit_imp_le_length)
  finally have h: "(crcBit ^^ 8) (push_bit 8 (drop_bit 8 c)) = drop_bit 8 c" .
  have "(crcBit ^^ 8) (c XOR ucast v)
        = (crcBit ^^ 8) (ucast (ucast c XOR v :: byte) XOR push_bit 8 (drop_bit 8 c))"
    by (rule arg_cong [OF crc_split])
  also have "\<dots> = (crcBit ^^ 8) (ucast (ucast c XOR v :: byte)) XOR drop_bit 8 c"
    by (simp only: crcBits_xor h)
  finally show ?thesis
    by (simp only: crcByte_def crc32Table_def)
qed

lemma crcByte_inj_state: "crcByte v c = crcByte v c' \<Longrightarrow> c = c'"
  by (auto simp: crcByte_bits dest!: crcBits_inj xor_cancel_right)

lemma ucast_byte_inj: "(ucast (v :: byte) :: uint32) = ucast v' \<Longrightarrow> v = v'"
proof (rule bit_word_eqI)
  fix n
  assume e: "(ucast v :: uint32) = ucast v'" and n: "n < LENGTH(8)"
  have "bit (ucast v :: uint32) n = bit (ucast v' :: uint32) n"
    by (simp only: e)
  thus "bit v n = bit v' n"
    using n by (simp add: bit_ucast_iff)
qed

lemma crcByte_inj_byte: "crcByte v c = crcByte v' c \<Longrightarrow> v = v'"
  by (auto simp: crcByte_bits dest!: crcBits_inj xor_cancel_left ucast_byte_inj)

lemma fold_crcByte_inj: "fold crcByte p c = fold crcByte p c' \<Longrightarrow> c = c'"
  by (induction p arbitrary: c c') (auto dest: crcByte_inj_state)

lemma crc32_Update_byte:
  "crc32_Update s (xs @ a # ys) = crc32_Update s (xs @ b # ys) \<Longrightarrow> a = b"
  by (auto simp: crc32_Update_def dest!: fold_crcByte_inj crcByte_inj_byte)

lemma crc32_Update_update:
  assumes "i < length p" "b \<noteq> p ! i"
  shows "crc32_Update s (p[i := b]) \<noteq> crc32_Update s p"
proof
  assume e: "crc32_Update s (p[i := b]) = crc32_Update s p"
  have "p[i := b] = take i p @ b # drop (Suc i) p"
    using assms(1) by (rule upd_conv_take_nth_drop)
  moreover have "p = take i p @ p ! i # drop (Suc i) p"
    using assms(1) by (rule id_take_nth_drop)
  ultimately have "crc32_Update s (take i p @ b # drop (Suc i) p)
                   = crc32_Update s (take i p @ p ! i # drop (Suc i) p)"
    using e by simp
  hence "b = p ! i" by (rule crc32_Update_byte)
  thus False using assms(2) by simp
qed

section \<open>Sizing\<close>




text \<open>
  C4 (amended). \<open>NeedleSize\<close> succeeds for the data lengths 1 and 5 MiB - 34, the latter
  giving a record of exactly 5 MiB, and fails with TooLarge for 5 MiB - 33 and for
  5 MiB - 32.
\<close>

theorem NeedleSize_boundaries:
  "NeedleSize 1 = (6, 40, None)
   \<and> NeedleSize (5 * 1024 * 1024 - 34) = (1, 5 * 1024 * 1024, None)
   \<and> NeedleSize (5 * 1024 * 1024 - 33) = (8, 5 * 1024 * 1024 + 8, Some ErrNeedleTooLarge)
   \<and> NeedleSize (5 * 1024 * 1024 - 32) = (7, 5 * 1024 * 1024 + 8, Some ErrNeedleTooLarge)"
  by (simp add: NeedleSize_def rem32_def Let_def signed_modulo_int_def)

text \<open>
  C4 as stated fails at 5 MiB - 33: the unpadded size is then 5 MiB, a multiple of 8, so
  the padding is 8 and the record is 8 bytes too large.
\<close>

theorem NeedleSize_5MiB_minus_33_counterexample:
  "snd (snd (NeedleSize (5 * 1024 * 1024 - 33))) = Some ErrNeedleTooLarge"
  by (simp add: NeedleSize_def rem32_def Let_def signed_modulo_int_def)

section \<open>The codec\<close>

lemma andThen_Inr [simp]: "andThen (Inr x) f = f x"
  by (simp add: andThen_def)

lemma andThen_Inl [simp]: "andThen (Inl e) f = Inl e"
  by (simp add: andThen_def)

subsection \<open>What \<open>FillNeedle\<close> writes\<close>

lemma length_be32 [simp]: "length (be32 v) = 4"
  by (simp add: be32_def)

lemma length_be64 [simp]: "length (be64 v) = 8"
  by (simp add: be64_def)

lemma length_needleHeaderMagic [simp]: "length needleHeaderMagic = 4"
  by (simp add: needleHeaderMagic_def)

lemma length_needleFooterMagic [simp]: "length needleFooterMagic = 4"
  by (simp add: needleFooterMagic_def)

lemma putAt_step:
  "length pre = off \<Longrightarrow> off + length bs \<le> length buf
     \<Longrightarrow> putAt off bs (pre @ drop off buf) = Inr (pre @ bs @ drop (off + length bs) buf)"
  by (simp add: putAt_def add.commute)

lemma copyAt_step:
  "length pre = off \<Longrightarrow> off + length bs \<le> length buf
     \<Longrightarrow> copyAt off bs (pre @ drop off buf) = Inr (pre @ bs @ drop (off + length bs) buf)"
  by (auto simp: copyAt_def Let_def min_def add.commute)

lemma drop_prefix: "length xs = a \<Longrightarrow> drop a (xs @ ys) = ys"
  by simp

lemma update_step:
  "length pre = off \<Longrightarrow> off < length buf
     \<Longrightarrow> (pre @ drop off buf)[off := x] = pre @ x # drop (Suc off) buf"
proof -
  assume a: "length pre = off" "off < length buf"
  have "drop off buf = buf ! off # drop (Suc off) buf"
    using a(2) by (simp add: Cons_nth_drop_Suc)
  thus ?thesis using a(1) by (simp add: list_update_append)
qed

lemma index_needlePadding:
  "index needlePadding (int p) = (if p < 8 then Inr (replicate p 0) else Inl PanicIndex)"
proof (cases "p < 8")
  case False
  thus ?thesis by (simp add: index_def needlePadding_def)
next
  case True
  hence "p \<in> {0, 1, 2, 3, 4, 5, 6, 7}" by auto
  thus ?thesis
    by (auto simp: index_def needlePadding_def numeral_eq_Suc)
qed

lemma FillNeedle_steps:
  assumes l: "33 + length data \<le> length buf"
  shows "FillNeedle padding sz key cookie data buf
           = andThen (index needlePadding (sint padding)) (\<lambda>zeros.
               copyAt (33 + length data) zeros
                 (needleHeaderMagic @ be64 cookie @ be64 key @ 0 # be32 sz @ data
                    @ needleFooterMagic @ be32 (crc32_Update 0 data)
                    @ drop (33 + length data) buf))"
proof -
  let ?d = "length data"
  let ?c = "crc32_Update 0 data"
  let ?m = needleHeaderMagic
  have s0: "sliceTo 4 buf = Inr (take 4 buf)"
    using l by (simp add: sliceTo_def)
  have s1: "copyAt 0 ?m buf = Inr (?m @ drop 4 buf)"
    using l copyAt_step [of "[]" 0 ?m buf] by simp
  have s2: "putAt 4 (be64 cookie) (?m @ drop 4 buf) = Inr (?m @ be64 cookie @ drop 12 buf)"
    using l putAt_step [of ?m 4 "be64 cookie" buf] by simp
  have s3: "putAt 12 (be64 key) (?m @ be64 cookie @ drop 12 buf)
              = Inr (?m @ be64 cookie @ be64 key @ drop 20 buf)"
    using l putAt_step [of "?m @ be64 cookie" 12 "be64 key" buf] by simp
  have s4: "(?m @ be64 cookie @ be64 key @ drop 20 buf)[20 := 0]
              = ?m @ be64 cookie @ be64 key @ 0 # drop 21 buf"
    using l update_step [of "?m @ be64 cookie @ be64 key" 20 buf 0] by simp
  have s5: "putAt 21 (be32 sz) (?m @ be64 cookie @ be64 key @ 0 # drop 21 buf)
              = Inr (?m @ be64 cookie @ be64 key @ 0 # be32 sz @ drop 25 buf)"
    using l putAt_step [of "?m @ be64 cookie @ be64 key @ [0]" 21 "be32 sz" buf] by simp
  have s6: "copyAt 25 data (?m @ be64 cookie @ be64 key @ 0 # be32 sz @ drop 25 buf)
              = Inr (?m @ be64 cookie @ be64 key @ 0 # be32 sz @ data @ drop (25 + ?d) buf)"
    using l copyAt_step [of "?m @ be64 cookie @ be64 key @ 0 # be32 sz" 25 data buf] by simp
  have s7: "copyAt (25 + ?d) needleFooterMagic
              (?m @ be64 cookie @ be64 key @ 0 # be32 sz @ data @ drop (25 + ?d) buf)
              = Inr (?m @ be64 cookie @ be64 key @ 0 # be32 sz @ data @ needleFooterMagic
                       @ drop (29 + ?d) buf)"
    using l copyAt_step [of "?m @ be64 cookie @ be64 key @ 0 # be32 sz @ data" "25 + ?d"
                            needleFooterMagic buf]
    by simp
  have s8: "putAt (29 + ?d) (be32 ?c)
              (?m @ be64 cookie @ be64 key @ 0 # be32 sz @ data @ needleFooterMagic
                 @ drop (29 + ?d) buf)
              = Inr (?m @ be64 cookie @ be64 key @ 0 # be32 sz @ data @ needleFooterMagic
                       @ be32 ?c @ drop (33 + ?d) buf)"
    using l putAt_step [of "?m @ be64 cookie @ be64 key @ 0 # be32 sz @ data @ needleFooterMagic"
                           "29 + ?d" "be32 ?c" buf]
    by simp
  have s9: "sliceFrom (33 + int ?d)
              (?m @ be64 cookie @ be64 key @ 0 # be32 sz @ data @ needleFooterMagic
                 @ be32 ?c @ drop (33 + ?d) buf) = Inr (drop (33 + ?d) buf)"
  proof -
    have "length (?m @ be64 cookie @ be64 key @ 0 # be32 sz @ data @ needleFooterMagic
                    @ be32 ?c) = 33 + ?d"
      by simp
    hence "drop (33 + ?d) ((?m @ be64 cookie @ be64 key @ 0 # be32 sz @ data
                              @ needleFooterMagic @ be32 ?c) @ drop (33 + ?d) buf)
             = drop (33 + ?d) buf"
      by (rule drop_prefix)
    thus ?thesis
      using l by (simp add: sliceFrom_def nat_add_distrib)
  qed
  show ?thesis
    using l
    by (simp add: FillNeedle_def Let_def s0 s1 s2 s3 s4 s5 s6 s7 s8 s9
          BigEndian_PutInt64_def BigEndian_PutInt32_def BigEndian_PutUint32_def)
qed

lemma FillNeedle_ok:
  assumes p: "sint padding = int p" "p < 8"
      and l: "33 + length data + p \<le> length buf"
  shows "FillNeedle padding sz key cookie data buf
           = Inr (encoded p sz key cookie data @ drop (33 + length data + p) buf)"
proof -
  let ?pre = "needleHeaderMagic @ be64 cookie @ be64 key @ 0 # be32 sz @ data
                @ needleFooterMagic @ be32 (crc32_Update 0 data)"
  have lp: "length ?pre = 33 + length data" by simp
  have "copyAt (33 + length data) (replicate p 0) (?pre @ drop (33 + length data) buf)
          = Inr (?pre @ replicate p 0 @ drop (33 + length data + length (replicate p 0 :: byte list)) buf)"
    using l by (intro copyAt_step [OF lp]) simp
  moreover have "index needlePadding (sint padding) = Inr (replicate p 0)"
    using p by (simp add: index_needlePadding)
  ultimately show ?thesis
    using l by (simp add: FillNeedle_steps encoded_def)
qed

lemma FillNeedle_index_panic:
  assumes "sint padding < 0 \<or> 8 \<le> sint padding" "33 + length data \<le> length buf"
  shows "FillNeedle padding sz key cookie data buf = Inl PanicIndex"
  using assms by (auto simp: FillNeedle_steps index_def needlePadding_def)

lemma andThen_eq_Inr: "andThen r f = Inr y \<longleftrightarrow> (\<exists>x. r = Inr x \<and> f x = Inr y)"
  by (cases r) simp_all

lemma putAt_Inr: "putAt off bs buf = Inr b \<Longrightarrow> length b = length buf \<and> off + length bs \<le> length buf"
  by (auto simp: putAt_def split: if_splits)

lemma copyAt_Inr: "copyAt off src buf = Inr b \<Longrightarrow> length b = length buf"
  by (auto simp: copyAt_def Let_def split: if_splits)

lemma index_Inr: "index xs i = Inr x \<Longrightarrow> 0 \<le> i \<and> i < int (length xs)"
  by (auto simp: index_def split: if_splits)

lemma FillNeedle_Inr:
  assumes "FillNeedle padding sz key cookie data buf = Inr r"
  shows "33 + length data \<le> length buf" and "0 \<le> sint padding" and "sint padding < 8"
proof -
  from assms obtain b1 b2 b3 b4 b5 b6 b7 b8 zeros where
    s: "copyAt 0 needleHeaderMagic buf = Inr b1"
       "putAt 4 (be64 cookie) b1 = Inr b2"
       "putAt 12 (be64 key) b2 = Inr b3"
       "20 < length b3" "b4 = b3[20 := 0]"
       "putAt 21 (be32 sz) b4 = Inr b5"
       "copyAt 25 data b5 = Inr b6"
       "copyAt (25 + length data) needleFooterMagic b6 = Inr b7"
       "putAt (29 + length data) (be32 (crc32_Update 0 data)) b7 = Inr b8"
       "index needlePadding (sint padding) = Inr zeros"
    by (auto simp: FillNeedle_def Let_def andThen_eq_Inr BigEndian_PutInt64_def
          BigEndian_PutInt32_def BigEndian_PutUint32_def add.commute add.left_commute
          split: if_splits)
  have "length b7 = length buf"
    using s by (auto dest!: putAt_Inr copyAt_Inr)
  moreover have "29 + length data + 4 \<le> length b7"
    using putAt_Inr [OF s(9)] by simp
  ultimately show "33 + length data \<le> length buf" by simp
  show "0 \<le> sint padding" "sint padding < 8"
    using index_Inr [OF s(10)] by (simp_all add: needlePadding_def)
qed

lemma FillNeedle_Inl: "FillNeedle padding sz key cookie data buf = Inl e \<Longrightarrow> is_panic e"
  by (auto simp: FillNeedle_def Let_def andThen_def is_panic_def sliceTo_def sliceFrom_def
        copyAt_def putAt_def index_def BigEndian_PutInt64_def BigEndian_PutInt32_def
        BigEndian_PutUint32_def split: sum.splits if_splits)

subsection \<open>What the parsers read\<close>

lemma ParseHeader_layout:
  "ParseHeader n (needleHeaderMagic @ be64 cookie @ be64 key @ flag # be32 sz @ rest) =
     (if flag \<noteq> 0 \<and> flag \<noteq> 1 then Inl ErrNeedleFlag
      else if 5242880 < sint sz \<or> sint sz < 1 then Inl ErrNeedleSize
      else Inr (n\<lparr>HeaderMagic := needleHeaderMagic, Cookie := cookie, Key := key, Flag := flag,
                 Size := sz, PaddingSize := 8 - rem32 (33 + sz) 8,
                 DataSize := sint (sz + (8 - rem32 (33 + sz) 8) + 8)\<rparr>))"
  by (simp add: ParseHeader_def sliceTo_def sliceFrom_def index_def nth_append Let_def
        Int64_be64 BigEndian_Int32_def Uint32_be32)

lemma ParseData_layout:
  assumes sz: "sint (Size n) = int (length data)" "length data \<le> 5242880"
      and fm: "length fm = 4" and cb: "length cb = 4"
  shows "ParseData n (data @ fm @ cb @ rest) =
     (if fm \<noteq> needleFooterMagic then Inl ErrNeedleFooterMagic
      else andThen (BigEndian_Uint32 cb) (\<lambda>stored.
        if stored \<noteq> crc32_Update 0 data then Inl ErrNeedleChecksum
        else andThen (sliceRange (int (length data) + 8) (sint (Size n + 8 + PaddingSize n))
                        (data @ fm @ cb @ rest)) (\<lambda>pad.
             andThen (index needlePadding (sint (PaddingSize n))) (\<lambda>zeros.
               if pad \<noteq> zeros then Inl ErrNeedlePadding
               else Inr (n\<lparr>Data := data, FooterMagic := fm, Checksum := stored,
                            Padding := pad\<rparr>)))))"
proof -
  have a4: "sint (Size n + 4) = int (length data) + 4"
    using sz by (simp add: sint_add32)
  have a8: "sint (Size n + 8) = int (length data) + 8"
    using sz by (simp add: sint_add32)
  have s0: "sliceTo (int (length data)) (data @ fm @ cb @ rest) = Inr data"
    by (simp add: sliceTo_def)
  have s1: "sliceRange (int (length data)) (int (length data) + 4) (data @ f @ cb @ rest) = Inr f"
    if "length f = 4" for f
    using that by (simp add: sliceRange_def)
  have s2: "sliceRange (int (length data) + 4) (int (length data) + 8) (data @ f @ cb @ rest) = Inr cb"
    if "length f = 4" for f
    using that cb by (simp add: sliceRange_def nat_add_distrib)
  show ?thesis
    unfolding ParseData_def Let_def
    using fm by (simp add: sz s0 s1 s2 a4 a8 add.assoc cong: if_cong)
qed

lemma ParseData_encoded:
  assumes sz: "sint (Size n) = int (length data)" "length data \<le> 5242880"
      and p: "sint (PaddingSize n) = int p" "p < 8"
  shows "ParseData n (data @ needleFooterMagic @ be32 (crc32_Update 0 data) @ replicate p 0 @ rest)
           = Inr (n\<lparr>Data := data, FooterMagic := needleFooterMagic,
                     Checksum := crc32_Update 0 data, Padding := replicate p 0\<rparr>)"
proof -
  have a8: "sint (Size n + 8) = int (length data) + 8"
    using sz by (simp add: sint_add32)
  have ap: "sint (Size n + 8 + PaddingSize n) = int (length data) + 8 + int p"
    using sz p by (simp add: sint_add32 a8)
  have sl: "sliceRange (int (length data) + 8) (int (length data) + 8 + int p)
              (data @ needleFooterMagic @ be32 (crc32_Update 0 data) @ replicate p 0 @ rest)
            = Inr (replicate p 0)"
    by (simp add: sliceRange_def nat_add_distrib)
  have ix: "index needlePadding (sint (PaddingSize n)) = Inr (replicate p 0)"
    using p by (simp add: index_needlePadding)
  show ?thesis
    by (simp add: ParseData_layout [OF sz] Uint32_be32 [of _ "[]", simplified] ap sl ix)
qed

lemma sint_of_nat32: "n < 2147483648 \<Longrightarrow> sint (of_nat n :: int32) = int n"
  using sint_of_int32 [of "int n"] by simp

text \<open>The needle that \<open>ParseHeader\<close> and \<open>ParseData\<close> give for an encoded record.\<close>

lemma parse_encoded:
  assumes d: "1 \<le> length data" "length data \<le> 5242880"
      and p: "sint (8 - rem32 (33 + (of_nat (length data) :: int32)) 8) = int p" "p < 8"
  shows "\<exists>h n. ParseHeader emptyNeedle (take 25 (encoded p (of_nat (length data)) key cookie data @ rest)) = Inr h
           \<and> Flag h = NeedleStatusOK \<and> Size h = of_nat (length data)
           \<and> ParseData h (drop 25 (encoded p (of_nat (length data)) key cookie data @ rest)) = Inr n
           \<and> Key n = key \<and> Cookie n = cookie \<and> Flag n = NeedleStatusOK \<and> Data n = data"
proof -
  let ?sz = "of_nat (length data) :: int32"
  let ?h = "emptyNeedle\<lparr>HeaderMagic := needleHeaderMagic, Cookie := cookie, Key := key,
              Flag := 0, Size := ?sz, PaddingSize := 8 - rem32 (33 + ?sz) 8,
              DataSize := sint (?sz + (8 - rem32 (33 + ?sz) 8) + 8)\<rparr>"
  have ssz: "sint ?sz = int (length data)"
    using d by (simp add: sint_of_nat32)
  have t: "take 25 (encoded p ?sz key cookie data @ rest)
             = needleHeaderMagic @ be64 cookie @ be64 key @ 0 # be32 ?sz @ []"
    by (simp add: encoded_def)
  have dr: "drop 25 (encoded p ?sz key cookie data @ rest)
             = data @ needleFooterMagic @ be32 (crc32_Update 0 data) @ replicate p 0 @ rest"
    by (simp add: encoded_def)
  have h: "ParseHeader emptyNeedle (take 25 (encoded p ?sz key cookie data @ rest)) = Inr ?h"
    unfolding t ParseHeader_layout using d by (auto simp: ssz)
  have n: "ParseData ?h (drop 25 (encoded p ?sz key cookie data @ rest))
             = Inr (?h\<lparr>Data := data, FooterMagic := needleFooterMagic,
                       Checksum := crc32_Update 0 data, Padding := replicate p 0\<rparr>)"
    unfolding dr using d p by (intro ParseData_encoded) (simp_all add: ssz)
  show ?thesis
    using h n by simp
qed

lemma NeedleSize_valid:
  assumes d: "1 \<le> length data" "length data \<le> 5242880"
      and ns: "NeedleSize (of_nat (length data)) = (padding, rl, err)"
  shows "padding = 8 - rem32 (33 + of_nat (length data)) 8"
    and "sint padding = 8 - (33 + int (length data)) mod 8"
    and "sint rl = 33 + int (length data) + sint padding"
proof -
  let ?sz = "of_nat (length data) :: int32"
  have ssz: "sint ?sz = int (length data)"
    using d by (simp add: sint_of_nat32)
  have s0: "sint (33 + ?sz) = 33 + int (length data)"
    using d by (simp add: sint_add32 ssz)
  have b: "0 \<le> sint (33 + ?sz)" "sint (33 + ?sz) \<le> 2147483639"
    using d by (simp_all add: s0)
  note q = padding_sint [OF b, unfolded s0]
  show pd: "padding = 8 - rem32 (33 + ?sz) 8"
    using ns by (simp add: NeedleSize_eq)
  thus sp: "sint padding = 8 - (33 + int (length data)) mod 8"
    by (simp only: q)
  have "fst (snd (NeedleSize ?sz)) = rl"
    by (simp only: ns fst_conv snd_conv)
  hence "rl = 33 + ?sz + (8 - rem32 (33 + ?sz) 8)"
    by (simp only: NeedleSize_eq fst_conv snd_conv)
  hence "sint rl = 33 + int (length data) + (8 - (33 + int (length data)) mod 8)"
    by (simp only: q)
  thus "sint rl = 33 + int (length data) + sint padding"
    by (simp only: sp)
qed

lemma roundtrip_padding_below_8:
  assumes d: "1 \<le> length data" "length data \<le> 5242880" "length data mod 8 \<noteq> 7"
      and ns: "NeedleSize (of_nat (length data)) = (padding, rl, None)"
      and l: "int (length buf) = sint rl"
  shows "\<exists>r h n. FillNeedle padding (of_nat (length data)) key cookie data buf = Inr r
           \<and> ParseHeader emptyNeedle (take 25 r) = Inr h
           \<and> Flag h = NeedleStatusOK \<and> Size h = of_nat (length data)
           \<and> ParseData h (drop 25 r) = Inr n
           \<and> Key n = key \<and> Cookie n = cookie \<and> Data n = data"
proof -
  note v = NeedleSize_valid [OF d(1,2) ns]
  define p where "p = nat (sint padding)"
  have m: "(33 + int (length data)) mod 8 \<noteq> 0"
    using d(3) by presburger
  have r: "0 \<le> (33 + int (length data)) mod 8" "(33 + int (length data)) mod 8 < 8"
    by simp_all
  have pb: "sint padding = int p" "p < 8"
    using v(2) m r unfolding p_def by linarith+
  have lb: "length buf = 33 + length data + p"
    using l v(3) pb by simp
  have f: "FillNeedle padding (of_nat (length data)) key cookie data buf
             = Inr (encoded p (of_nat (length data)) key cookie data @ [])"
    using FillNeedle_ok [OF pb, of data buf "of_nat (length data)" key cookie] lb by simp
  from parse_encoded [OF d(1,2), of p key cookie "[]"] pb v(1)
  show ?thesis unfolding f by blast
qed

subsection \<open>Changed bytes\<close>

lemma ParseData_data_changed:
  assumes sz: "sint (Size n) = int (length data)" "length data \<le> 5242880"
      and i: "i < length data" "b \<noteq> data ! i"
  shows "ParseData n (data[i := b] @ needleFooterMagic @ be32 (crc32_Update 0 data) @ rest)
           = Inl ErrNeedleChecksum"
proof -
  have c: "crc32_Update 0 data \<noteq> crc32_Update 0 (data[i := b])"
    using crc32_Update_update [OF i, of 0] by simp
  have "ParseData n (data[i := b] @ needleFooterMagic @ be32 (crc32_Update 0 data) @ rest)
          = andThen (BigEndian_Uint32 (be32 (crc32_Update 0 data))) (\<lambda>stored.
              if stored \<noteq> crc32_Update 0 (data[i := b]) then Inl ErrNeedleChecksum
              else andThen (sliceRange (int (length (data[i := b])) + 8) (sint (Size n + 8 + PaddingSize n))
                        (data[i := b] @ needleFooterMagic @ be32 (crc32_Update 0 data) @ rest)) (\<lambda>pad.
             andThen (index needlePadding (sint (PaddingSize n))) (\<lambda>zeros.
               if pad \<noteq> zeros then Inl ErrNeedlePadding
               else Inr (n\<lparr>Data := data[i := b], FooterMagic := needleFooterMagic, Checksum := stored,
                            Padding := pad\<rparr>))))"
    using sz by (subst ParseData_layout) simp_all
  thus ?thesis
    using c by (simp add: Uint32_be32 [of _ "[]", simplified])
qed

lemma ParseData_footer_changed:
  assumes sz: "sint (Size n) = int (length data)" "length data \<le> 5242880"
      and l: "length fm = 4" "length cb = 4"
      and ne: "fm @ cb \<noteq> needleFooterMagic @ be32 (crc32_Update 0 data)"
  shows "ParseData n (data @ fm @ cb @ rest) = Inl ErrNeedleFooterMagic
       \<or> ParseData n (data @ fm @ cb @ rest) = Inl ErrNeedleChecksum"
proof (cases "fm = needleFooterMagic")
  case False
  thus ?thesis by (simp add: ParseData_layout [OF sz l])
next
  case True
  hence cb: "cb \<noteq> be32 (crc32_Update 0 data)" using ne by simp
  obtain stored where s: "BigEndian_Uint32 cb = Inr stored"
    using l(2) by (simp add: BigEndian_Uint32_def)
  have "stored \<noteq> crc32_Update 0 data"
    using be32_Uint32 [OF l(2) s] cb by auto
  thus ?thesis
    unfolding True
    by (simp add: ParseData_layout [OF sz length_needleFooterMagic l(2)] s)
qed

lemma flip_bit_byte: "k < 8 \<Longrightarrow> flip_bit k x \<noteq> x" for x :: byte
proof
  assume k: "k < 8" and e: "flip_bit k x = x"
  have "bit (flip_bit k x) k \<longleftrightarrow> \<not> bit x k"
    using k by (simp add: bit_flip_bit_iff)
  thus False using e by simp
qed

lemma encoded_valid:
  assumes d: "1 \<le> length data" "length data \<le> 5242880"
      and ns: "NeedleSize (of_nat (length data)) = (padding, rl, None)"
      and l: "int (length buf) = sint rl"
      and f: "FillNeedle padding (of_nat (length data)) key cookie data buf = Inr r"
  obtains p where "sint padding = int p" "p < 8"
    "r = (needleHeaderMagic @ be64 cookie @ be64 key @ 0 # be32 (of_nat (length data)))
           @ data @ (needleFooterMagic @ be32 (crc32_Update 0 data)) @ replicate p 0"
proof -
  note v = NeedleSize_valid [OF d ns]
  note fi = FillNeedle_Inr [OF f]
  define p where "p = nat (sint padding)"
  have pb: "sint padding = int p" "p < 8"
    using fi(2,3) unfolding p_def by linarith+
  have lb: "length buf = 33 + length data + p"
    using l v(3) pb by simp
  have "FillNeedle padding (of_nat (length data)) key cookie data buf
             = Inr (encoded p (of_nat (length data)) key cookie data @ [])"
    using FillNeedle_ok [OF pb, of data buf "of_nat (length data)" key cookie] lb by simp
  hence "r = encoded p (of_nat (length data)) key cookie data"
    using f by simp
  hence "r = (needleHeaderMagic @ be64 cookie @ be64 key @ 0 # be32 (of_nat (length data)))
           @ data @ (needleFooterMagic @ be32 (crc32_Update 0 data)) @ replicate p 0"
    by (simp add: encoded_def)
  with pb show ?thesis by (rule that)
qed

lemma take_update_prefix:
  "length xs = a \<Longrightarrow> a \<le> j \<Longrightarrow> take a ((xs @ ys)[j := x]) = xs"
  by (simp add: list_update_append)

lemma drop_update_prefix:
  "length xs = a \<Longrightarrow> a \<le> j \<Longrightarrow> drop a ((xs @ ys)[j := x]) = ys[j - a := x]"
  by (simp add: list_update_append)

lemma nth_prefix:
  "length xs = a \<Longrightarrow> a \<le> j \<Longrightarrow> (xs @ ys) ! j = ys ! (j - a)"
  by (simp add: nth_append)

lemma WriteNeedle_padding:
  "WriteNeedle wr w padding sz key cookie data = Inr w' \<Longrightarrow> 0 \<le> sint padding \<and> sint padding < 8"
  by (auto simp: WriteNeedle_def andThen_eq_Inr needlePadding_def dest!: index_Inr)

lemma ParseData_padding:
  "ParseData n buf = Inr n' \<Longrightarrow> 0 \<le> sint (PaddingSize n) \<and> sint (PaddingSize n) < 8"
  by (auto simp: ParseData_def Let_def andThen_eq_Inr needlePadding_def
        split: if_splits dest!: index_Inr)

section \<open>Checksum and footer protect the record\<close>

text \<open>
  C8. Take a valid encoded record: data of 1 up to 5 MiB bytes, the padding and record
  length that \<open>NeedleSize\<close> returns without error, and the buffer of that length as
  \<open>FillNeedle\<close> has filled it. Its header parses to some needle \<open>h\<close>. Changing any one
  byte of the data region (bytes 25 up to 25 + size) makes \<open>ParseData\<close> return the
  checksum error, and flipping any bit of the eight footer bytes (footer magic and
  checksum) makes it return the footer-magic or the checksum error; the header still
  parses to \<open>h\<close>, so \<open>ParseData\<close> is reached with the same size.
\<close>

theorem corruption_detected:
  assumes d: "1 \<le> length data" "length data \<le> 5242880"
      and ns: "NeedleSize (of_nat (length data)) = (padding, rl, None)"
      and l: "int (length buf) = sint rl"
      and f: "FillNeedle padding (of_nat (length data)) key cookie data buf = Inr r"
  shows "\<exists>h. ParseHeader emptyNeedle (take 25 r) = Inr h
        \<and> (\<forall>i b. i < length data \<longrightarrow> b \<noteq> data ! i \<longrightarrow>
               ParseHeader emptyNeedle (take 25 (r[25 + i := b])) = Inr h
             \<and> ParseData h (drop 25 (r[25 + i := b])) = Inl ErrNeedleChecksum)
        \<and> (\<forall>j k. 25 + length data \<le> j \<longrightarrow> j < 25 + length data + 8 \<longrightarrow> k < 8 \<longrightarrow>
               ParseHeader emptyNeedle (take 25 (r[j := flip_bit k (r ! j)])) = Inr h
             \<and> (ParseData h (drop 25 (r[j := flip_bit k (r ! j)])) = Inl ErrNeedleFooterMagic
                \<or> ParseData h (drop 25 (r[j := flip_bit k (r ! j)])) = Inl ErrNeedleChecksum))"
proof -
  let ?sz = "of_nat (length data) :: int32"
  define hdr where "hdr = needleHeaderMagic @ be64 cookie @ be64 key @ 0 # be32 ?sz"
  define ft where "ft = needleFooterMagic @ be32 (crc32_Update 0 data)"
  from d ns l f obtain p where pb: "sint padding = int p" "p < 8"
    and r: "r = hdr @ data @ ft @ replicate p 0"
    unfolding hdr_def ft_def by (rule encoded_valid)
  let ?h = "emptyNeedle\<lparr>HeaderMagic := needleHeaderMagic, Cookie := cookie, Key := key,
              Flag := 0, Size := ?sz, PaddingSize := 8 - rem32 (33 + ?sz) 8,
              DataSize := sint (?sz + (8 - rem32 (33 + ?sz) 8) + 8)\<rparr>"
  have ssz: "sint ?sz = int (length data)"
    using d by (simp add: sint_of_nat32)
  have sh: "sint (Size ?h) = int (length data)"
    by (simp add: ssz)
  have lh: "length hdr = 25" by (simp add: hdr_def)
  have lft: "length ft = 8" by (simp add: ft_def)
  have hd: "ParseHeader emptyNeedle hdr = Inr ?h"
    using ParseHeader_layout [of emptyNeedle cookie key 0 ?sz "[]"] d
    by (auto simp: ssz hdr_def)
  have tk: "take 25 (r[j := x]) = hdr" if "25 \<le> j" for j x
    unfolding r by (rule take_update_prefix [OF lh that])
  have dr: "drop 25 (r[j := x]) = (data @ ft @ replicate p 0)[j - 25 := x]" if "25 \<le> j" for j x
    unfolding r by (rule drop_update_prefix [OF lh that])
  have h0: "ParseHeader emptyNeedle (take 25 r) = Inr ?h"
    using hd lh unfolding r by simp
  have data: "ParseHeader emptyNeedle (take 25 (r[25 + i := b])) = Inr ?h
             \<and> ParseData ?h (drop 25 (r[25 + i := b])) = Inl ErrNeedleChecksum"
    if i: "i < length data" "b \<noteq> data ! i" for i b
  proof -
    have "(data @ ft @ replicate p 0)[i := b]
            = data[i := b] @ needleFooterMagic @ be32 (crc32_Update 0 data) @ replicate p 0"
      using i(1) by (simp add: list_update_append ft_def)
    hence "ParseData ?h (drop 25 (r[25 + i := b])) = Inl ErrNeedleChecksum"
      using ParseData_data_changed [OF sh d(2) i, of "replicate p 0"] by (simp add: dr)
    thus ?thesis by (simp add: tk hd h0)
  qed
  have footer: "ParseHeader emptyNeedle (take 25 (r[j := flip_bit k (r ! j)])) = Inr ?h
             \<and> (ParseData ?h (drop 25 (r[j := flip_bit k (r ! j)])) = Inl ErrNeedleFooterMagic
                \<or> ParseData ?h (drop 25 (r[j := flip_bit k (r ! j)])) = Inl ErrNeedleChecksum)"
    if j: "25 + length data \<le> j" "j < 25 + length data + 8" and k: "k < 8" for j k
  proof -
    define t where "t = j - 25 - length data"
    have t: "t < 8" "j - 25 = length data + t" "25 \<le> j"
      using j by (simp_all add: t_def)
    define x where "x = flip_bit k (r ! j)"
    have "r ! j = (data @ ft @ replicate p 0) ! (j - 25)"
      unfolding r by (rule nth_prefix [OF lh t(3)])
    hence rj: "r ! j = ft ! t"
      using t(1) lft unfolding t(2) by (simp add: nth_append)
    define ft' where "ft' = ft[t := x]"
    have lf: "length ft' = 8" by (simp add: ft'_def lft)
    have "ft' ! t = x" using t(1) by (simp add: ft'_def lft)
    hence ne: "ft' \<noteq> ft"
      using flip_bit_byte [OF k, of "ft ! t"] by (auto simp: x_def rj)
    have "(data @ ft @ replicate p 0)[j - 25 := x] = data @ ft' @ replicate p 0"
      using t(1) lft unfolding t(2) ft'_def by (simp add: list_update_append)
    also have "\<dots> = data @ take 4 ft' @ drop 4 ft' @ replicate p 0"
      by simp
    finally have e: "drop 25 (r[j := x]) = data @ take 4 ft' @ drop 4 ft' @ replicate p 0"
      using t(3) by (simp add: dr)
    have "take 4 ft' @ drop 4 ft' \<noteq> needleFooterMagic @ be32 (crc32_Update 0 data)"
      using ne by (simp add: ft_def)
    hence "ParseData ?h (drop 25 (r[j := x])) = Inl ErrNeedleFooterMagic
         \<or> ParseData ?h (drop 25 (r[j := x])) = Inl ErrNeedleChecksum"
      unfolding e using lf by (intro ParseData_footer_changed [OF sh d(2)]) simp_all
    moreover have "ParseHeader emptyNeedle (take 25 (r[j := x])) = Inr ?h"
      using t(3) by (simp add: tk hd h0)
    ultimately show ?thesis by (simp only: x_def)
  qed
  show ?thesis
    using h0 data footer by blast
qed

theorem corruption_detected_witness:
  "1 \<le> length [0xAA :: byte] \<and> length [0xAA :: byte] \<le> 5242880
   \<and> NeedleSize (of_nat (length [0xAA :: byte])) = (6, 40, None)
   \<and> int (length (replicate 40 0 :: byte list)) = sint (40 :: int32)
   \<and> FillNeedle 6 (of_nat (length [0xAA :: byte])) 7 42 [0xAA] (replicate 40 0)
        = Inr (encoded 6 1 7 42 [0xAA])
   \<and> (\<exists>h. ParseHeader emptyNeedle (take 25 (encoded 6 1 7 42 [0xAA])) = Inr h
         \<and> ParseData h (drop 25 ((encoded 6 1 7 42 [0xAA])[25 + 0 := 0xAB])) = Inl ErrNeedleChecksum
         \<and> (ParseData h (drop 25 ((encoded 6 1 7 42 [0xAA])
                [26 := flip_bit 3 (encoded 6 1 7 42 [0xAA] ! 26)])) = Inl ErrNeedleFooterMagic
            \<or> ParseData h (drop 25 ((encoded 6 1 7 42 [0xAA])
                [26 := flip_bit 3 (encoded 6 1 7 42 [0xAA] ! 26)])) = Inl ErrNeedleChecksum))"
proof -
  have d: "1 \<le> length [0xAA :: byte]" "length [0xAA :: byte] \<le> 5242880"
    by simp_all
  have ns: "NeedleSize (of_nat (length [0xAA :: byte])) = (6, 40, None)"
    by (simp add: NeedleSize_def rem32_def Let_def signed_modulo_int_def)
  have l: "int (length (replicate 40 0 :: byte list)) = sint (40 :: int32)"
    by simp
  have f: "FillNeedle 6 (of_nat (length [0xAA :: byte])) 7 42 [0xAA] (replicate 40 0)
             = Inr (encoded 6 1 7 42 [0xAA])"
    using FillNeedle_ok [of 6 6 "[0xAA]" "replicate 40 0" 1 7 42] by simp
  from corruption_detected [OF d ns l f] obtain h where
    h: "ParseHeader emptyNeedle (take 25 (encoded 6 1 7 42 [0xAA])) = Inr h"
    and a: "\<And>i b. i < length [0xAA :: byte] \<Longrightarrow> b \<noteq> [0xAA :: byte] ! i \<Longrightarrow>
             ParseData h (drop 25 ((encoded 6 1 7 42 [0xAA])[25 + i := b])) = Inl ErrNeedleChecksum"
    and b: "\<And>j k. 25 + length [0xAA :: byte] \<le> j \<Longrightarrow> j < 25 + length [0xAA :: byte] + 8 \<Longrightarrow> k < 8 \<Longrightarrow>
             ParseData h (drop 25 ((encoded 6 1 7 42 [0xAA])
                [j := flip_bit k (encoded 6 1 7 42 [0xAA] ! j)])) = Inl ErrNeedleFooterMagic
            \<or> ParseData h (drop 25 ((encoded 6 1 7 42 [0xAA])
                [j := flip_bit k (encoded 6 1 7 42 [0xAA] ! j)])) = Inl ErrNeedleChecksum"
    by blast
  have a0: "ParseData h (drop 25 ((encoded 6 1 7 42 [0xAA])[25 + 0 := 0xAB])) = Inl ErrNeedleChecksum"
    by (rule a) simp_all
  have b0: "ParseData h (drop 25 ((encoded 6 1 7 42 [0xAA])
                [26 := flip_bit 3 (encoded 6 1 7 42 [0xAA] ! 26)])) = Inl ErrNeedleFooterMagic
            \<or> ParseData h (drop 25 ((encoded 6 1 7 42 [0xAA])
                [26 := flip_bit 3 (encoded 6 1 7 42 [0xAA] ! 26)])) = Inl ErrNeedleChecksum"
    by (rule b) simp_all
  show ?thesis
    using d ns l f h a0 b0 by blast
qed

section \<open>The padding table is one entry short\<close>

text \<open>
  When the unpadded size is a multiple of 8 the sizing rule gives the padding 8, but
  \<open>needlePadding\<close> has the eight entries 0 to 7, so every index expression
  \<open>needlePadding[padding]\<close> panics for such a record. For every other length the round
  trip holds, as \<open>roundtrip_padding_below_8\<close> shows.
\<close>

text \<open>
  C1 at a failing input: for 7 bytes of data \<open>NeedleSize\<close> succeeds with padding 8 and
  record length 48, and \<open>FillNeedle\<close> on a buffer of 48 bytes panics with an index out
  of range instead of producing a record, whatever the key and the cookie.
\<close>

theorem roundtrip_panics_at_7_bytes:
  "NeedleSize (of_nat (length [1, 2, 3, 4, 5, 6, 7 :: byte])) = (8, 48, None)
   \<and> FillNeedle 8 (of_nat (length [1, 2, 3, 4, 5, 6, 7 :: byte])) key cookie
        [1, 2, 3, 4, 5, 6, 7] (replicate 48 0) = Inl PanicIndex"
  by (simp add: NeedleSize_def rem32_def Let_def signed_modulo_int_def FillNeedle_index_panic)

text \<open>
  C2 at a failing input: \<open>NeedleSize 7\<close> gives the padding 8, at which the index into
  \<open>needlePadding\<close> is out of bounds; with the padding 8 \<open>FillNeedle\<close> panics on every
  input, \<open>WriteNeedle\<close> never completes whatever the writer does, and \<open>ParseData\<close>
  never returns a needle.
\<close>

theorem padding_8_out_of_bounds:
  "fst (NeedleSize 7) = 8
   \<and> index needlePadding (sint (fst (NeedleSize 7))) = Inl PanicIndex
   \<and> (\<forall>sz key cookie data buf. \<exists>e. FillNeedle 8 sz key cookie data buf = Inl e \<and> is_panic e)
   \<and> (\<forall>wr w sz key cookie data. \<exists>e. WriteNeedle wr (w :: 'w) 8 sz key cookie data = Inl e)
   \<and> (\<forall>n buf. \<exists>e. ParseData (n\<lparr>PaddingSize := 8\<rparr>) buf = Inl e)"
proof -
  have ns: "fst (NeedleSize 7) = 8"
    by (simp add: NeedleSize_def rem32_def Let_def signed_modulo_int_def)
  have ix: "index needlePadding (sint (8 :: int32)) = Inl PanicIndex"
    by (simp add: index_def needlePadding_def)
  have f: "\<exists>e. FillNeedle 8 sz key cookie data buf = Inl e \<and> is_panic e"
    for sz key cookie data buf
  proof (cases "FillNeedle 8 sz key cookie data buf")
    case (Inl e)
    thus ?thesis using FillNeedle_Inl [OF Inl] by simp
  next
    case (Inr r)
    thus ?thesis using FillNeedle_Inr(3) [OF Inr] by simp
  qed
  have w: "\<exists>e. WriteNeedle wr (w :: 'w) 8 sz key cookie data = Inl e"
    for wr w sz key cookie data
  proof (cases "WriteNeedle wr w 8 sz key cookie data")
    case (Inr w')
    thus ?thesis using WriteNeedle_padding [OF Inr] by simp
  qed simp
  have p: "\<exists>e. ParseData (n\<lparr>PaddingSize := 8\<rparr>) buf = Inl e" for n buf
  proof (cases "ParseData (n\<lparr>PaddingSize := 8\<rparr>) buf")
    case (Inr n')
    thus ?thesis using ParseData_padding [OF Inr] by simp
  qed simp
  show ?thesis
    using ns ix f w p by (simp only: ns) blast
qed

section \<open>The needle cache\<close>

lemma take_bit_32_64_add:
  "take_bit 32 (take_bit 64 a + take_bit 64 b) = take_bit 32 (a + b)" for a b :: int
proof -
  have "take_bit 32 (take_bit 64 a + take_bit 64 b)
          = take_bit 32 (take_bit 32 (take_bit 64 a) + take_bit 32 (take_bit 64 b))"
    by (simp only: take_bit_add)
  also have "\<dots> = take_bit 32 (take_bit 32 a + take_bit 32 b)"
    by (simp add: take_bit_take_bit)
  also have "\<dots> = take_bit 32 (a + b)"
    by (simp only: take_bit_add)
  finally show ?thesis .
qed

lemma ucast_add_down: "(ucast (a + b :: 64 word) :: 32 word) = ucast a + ucast b"
  by transfer (simp add: take_bit_32_64_add take_bit_take_bit)

lemma ucast_push32: "(ucast (push_bit 32 (x :: 64 word)) :: 32 word) = 0"
  by (rule bit_word_eqI) (simp add: bit_simps)

lemma ucast_scast32: "(ucast (scast (s :: 32 word) :: 64 word) :: 32 word) = s"
  by (rule bit_word_eqI) (simp add: bit_simps)

lemma Value_size: "snd (Value (NewNeedleCache offset sz)) = sz"
  by (simp add: Value_def NewNeedleCache_def ucast_add_down ucast_push32 ucast_scast32)

lemma NewNeedleCache_nonneg:
  assumes "0 \<le> sint sz"
  shows "NewNeedleCache offset sz = push_bit 32 (ucast offset) OR ucast sz"
proof -
  have msb: "\<not> bit sz 31"
    using assms bit_last_iff [of sz] by simp
  have sc: "(scast sz :: 64 word) = ucast sz"
  proof (rule bit_word_eqI)
    fix n
    show "bit (scast sz :: 64 word) n = bit (ucast sz :: 64 word) n"
    proof (cases "n < 31")
      case True
      thus ?thesis by (simp add: bit_simps min_def)
    next
      case False
      hence m: "min 31 n = 31" by simp
      have "\<not> bit sz n"
      proof
        assume b: "bit sz n"
        hence "n < LENGTH(32)" by (rule bit_imp_le_length)
        with False have "n = 31" by simp
        thus False using msb b by simp
      qed
      thus ?thesis using msb m by (simp add: bit_simps)
    qed
  qed
  have "push_bit 32 (ucast offset :: 64 word) + ucast sz = push_bit 32 (ucast offset) OR ucast sz"
    by (rule disjunctive_add) (auto simp: bit_simps dest: bit_imp_le_length)
  thus ?thesis by (simp add: NewNeedleCache_def sc)
qed

lemma Value_offset:
  assumes "0 \<le> sint sz"
  shows "fst (Value (NewNeedleCache offset sz)) = offset"
  unfolding Value_def NewNeedleCache_nonneg [OF assms] fst_conv
  by (rule bit_word_eqI) (auto simp: bit_simps dest: bit_imp_le_length)

lemma andThen_eq_Inl: "andThen r f = Inl e \<longleftrightarrow> r = Inl e \<or> (\<exists>x. r = Inr x \<and> f x = Inl e)"
  by (cases r) simp_all

lemma slice_errors:
  "sliceTo i b = Inl e \<Longrightarrow> parseError e"
  "sliceFrom i b = Inl e \<Longrightarrow> parseError e"
  "sliceRange i j b = Inl e \<Longrightarrow> parseError e"
  "index xs k = Inl e \<Longrightarrow> parseError e"
  "BigEndian_Int64 c = Inl e \<Longrightarrow> parseError e"
  "BigEndian_Int32 c = Inl e \<Longrightarrow> parseError e"
  "BigEndian_Uint32 c = Inl e \<Longrightarrow> parseError e"
  by (auto simp: sliceTo_def sliceFrom_def sliceRange_def index_def BigEndian_Int64_def
        BigEndian_Int32_def BigEndian_Uint32_def parseError_def split: if_splits)

lemma ParseHeader_errors: "ParseHeader n b = Inl e \<Longrightarrow> parseError e"
  unfolding ParseHeader_def Let_def
  by (auto simp: andThen_eq_Inl split: if_splits dest: slice_errors) (simp_all add: parseError_def)

lemma ParseData_errors: "ParseData n b = Inl e \<Longrightarrow> parseError e"
  unfolding ParseData_def Let_def
  by (auto simp: andThen_eq_Inl split: if_splits dest: slice_errors) (simp_all add: parseError_def)

lemma readNeedle_errors: "readNeedle st v offset sz buf = Inl e \<Longrightarrow> e = ErrIO \<or> parseError e"
  unfolding readNeedle_def Let_def
  by (auto simp: andThen_eq_Inl split: option.splits
        dest: slice_errors ParseHeader_errors ParseData_errors)

lemma readNeedle_size: "readNeedle st v offset sz buf = Inr n \<Longrightarrow> 0 \<le> sint sz"
  by (auto simp: readNeedle_def andThen_eq_Inr sliceTo_def split: if_splits)

lemma Value_tombstone:
  "0 \<le> sint sz \<Longrightarrow> Value (NewNeedleCache NeedleCacheDelOffset sz) = (NeedleCacheDelOffset, sz)"
  using Value_offset [of sz 0] Value_size [of 0 sz] by (simp add: prod_eq_iff)

lemma asyncDel_needles [simp]: "needles (snd (asyncDel v offset)) = needles v"
  by (simp add: asyncDel_def)


lemma Del_needles:
  "needles (snd (Del v key)) =
     (case needles v key of None \<Rightarrow> needles v
      | Some c \<Rightarrow> (needles v)(key \<mapsto> NewNeedleCache NeedleCacheDelOffset (snd (Value c))))"
  by (simp add: Del_def Let_def split_beta split: option.splits)






lemma del_after_finish:
  "del st (evs @ Recv volumeFinish # evs') offsets b = del st (evs @ [Recv volumeFinish]) offsets b"
proof (induction evs arbitrary: offsets b)
  case Nil
  show ?case by simp
next
  case (Cons ev evs)
  show ?case
    by (cases ev) (simp_all add: Let_def Cons.IH)
qed

lemma del_exits: "fst (del st (evs @ [Recv volumeFinish]) offsets b)"
proof (induction evs arbitrary: offsets b)
  case Nil
  show ?case by simp
next
  case (Cons ev evs)
  show ?case
    by (cases ev) (simp_all add: Let_def Cons.IH)
qed

section \<open>Reading, deleting and replacing\<close>

text \<open>
  C6. \<open>Get\<close> returns the NoNeedle error exactly when the key is absent from the cache;
  the Deleted error when the entry is a tombstone (offset field 0); the error of the read
  or of the parsers when they fail; and after a successful read and parse the Key error
  when the parsed key differs from the requested one, else the Cookie error when the
  cookie differs, else, when the parsed flag is Deleted, the Deleted error together with
  the cache entry overwritten by a tombstone that keeps the size, else the payload.
\<close>

theorem Get_outcomes:
  "(fst (Get st v key cookie buf) = Inl ErrNoNeedle \<longleftrightarrow> needles v key = None)
   \<and> (\<forall>c. needles v key = Some c \<longrightarrow> fst (Value c) = NeedleCacheDelOffset \<longrightarrow>
          Get st v key cookie buf = (Inl ErrNeedleDeleted, v))
   \<and> (\<forall>c e. needles v key = Some c \<longrightarrow> fst (Value c) \<noteq> NeedleCacheDelOffset \<longrightarrow>
          readNeedle st v (fst (Value c)) (snd (Value c)) buf = Inl e \<longrightarrow>
          Get st v key cookie buf = (Inl e, v))
   \<and> (\<forall>c n. needles v key = Some c \<longrightarrow> fst (Value c) \<noteq> NeedleCacheDelOffset \<longrightarrow>
          readNeedle st v (fst (Value c)) (snd (Value c)) buf = Inr n \<longrightarrow>
            Get st v key cookie buf =
              (if Key n \<noteq> key then (Inl ErrNeedleKey, v)
               else if Cookie n \<noteq> cookie then (Inl ErrNeedleCookie, v)
               else if Flag n = NeedleStatusDel
               then (Inl ErrNeedleDeleted,
                     v\<lparr>needles := (needles v)(key \<mapsto>
                          NewNeedleCache NeedleCacheDelOffset (snd (Value c)))\<rparr>)
               else (Inr (Data n), v))
          \<and> Value (NewNeedleCache NeedleCacheDelOffset (snd (Value c)))
              = (NeedleCacheDelOffset, snd (Value c)))"
proof -
  have none: "fst (Get st v key cookie buf) = Inl ErrNoNeedle" if "needles v key = None"
    using that by (simp add: Get_def)
  have some: "fst (Get st v key cookie buf) \<noteq> Inl ErrNoNeedle" if c: "needles v key = Some c" for c
  proof (cases "readNeedle st v (fst (Value c)) (snd (Value c)) buf")
    case (Inl e)
    hence "e \<noteq> ErrNoNeedle"
      using readNeedle_errors [OF Inl] by (auto simp: parseError_def)
    thus ?thesis
      using c Inl by (simp add: Get_def Let_def split_beta)
  next
    case (Inr n)
    thus ?thesis
      using c by (simp add: Get_def Let_def split_beta)
  qed
  have a: "fst (Get st v key cookie buf) = Inl ErrNoNeedle \<longleftrightarrow> needles v key = None"
    using none some by (cases "needles v key") auto
  have b: "Get st v key cookie buf = (Inl ErrNeedleDeleted, v)"
    if "needles v key = Some c" "fst (Value c) = NeedleCacheDelOffset" for c
    using that by (simp add: Get_def Let_def split_beta)
  have e: "Get st v key cookie buf = (Inl e, v)"
    if "needles v key = Some c" "fst (Value c) \<noteq> NeedleCacheDelOffset"
       "readNeedle st v (fst (Value c)) (snd (Value c)) buf = Inl e" for c e
    using that by (simp add: Get_def Let_def split_beta)
  have n: "Get st v key cookie buf =
              (if Key n \<noteq> key then (Inl ErrNeedleKey, v)
               else if Cookie n \<noteq> cookie then (Inl ErrNeedleCookie, v)
               else if Flag n = NeedleStatusDel
               then (Inl ErrNeedleDeleted,
                     v\<lparr>needles := (needles v)(key \<mapsto>
                          NewNeedleCache NeedleCacheDelOffset (snd (Value c)))\<rparr>)
               else (Inr (Data n), v))
          \<and> Value (NewNeedleCache NeedleCacheDelOffset (snd (Value c)))
              = (NeedleCacheDelOffset, snd (Value c))"
    if "needles v key = Some c" "fst (Value c) \<noteq> NeedleCacheDelOffset"
       "readNeedle st v (fst (Value c)) (snd (Value c)) buf = Inr n" for c n
    using that Value_tombstone [OF readNeedle_size [OF that(3)]]
    by (simp add: Get_def Let_def split_beta)
  show ?thesis
    using a b e n by blast
qed



text \<open>
  C10. \<open>Del\<close> of a key whose cache entry is already a tombstone returns \<open>nil\<close> when the
  queue has room and posts the offset 0. The delete goroutine returns when it receives 0,
  its \<open>volumeFinish\<close>: whatever it is sent after that, its result is the one it had when
  it received the 0, so no later offset reaches \<open>block_Del\<close>.
\<close>

theorem Del_of_tombstone_stops_del:
  fixes v :: "'b Volume" and st :: "'b Storage"
  shows "(\<forall>c. needles v key = Some c \<longrightarrow> fst (Value c) = NeedleCacheDelOffset \<longrightarrow>
             length (signal v) < volumeDelChNum \<longrightarrow>
               fst (Del v key) = None \<and> signal (snd (Del v key)) = signal v @ [volumeFinish])
       \<and> fst (del st (evs @ [Recv volumeFinish]) offsets b)
       \<and> del st (evs @ Recv volumeFinish # evs') offsets b
           = del st (evs @ [Recv volumeFinish]) offsets b"
proof -
  have "fst (Del v key) = None \<and> signal (snd (Del v key)) = signal v @ [volumeFinish]"
    if "needles v key = Some c" "fst (Value c) = NeedleCacheDelOffset"
       "length (signal v) < volumeDelChNum" for c
    using that by (simp add: Del_def Let_def split_beta asyncDel_def)
  thus ?thesis
    using del_exits [of st evs offsets b] del_after_finish [of st evs evs' offsets b] by blast
qed

section \<open>The theorems at the example volume\<close>

lemma Value_example: "Value (NewNeedleCache 1 40) = (1, 40)"
  using Value_offset [of 40 1] Value_size [of 1 40] by (simp add: prod_eq_iff)

lemma length_encoded: "length (encoded p sz key cookie data) = 33 + length data + p"
  by (simp add: encoded_def)

lemma readNeedle_example:
  "\<exists>n. readNeedle exampleStorage exampleVolume 1 40 (replicate 40 0) = Inr n
       \<and> Key n = 7 \<and> Cookie n = 42 \<and> Flag n = NeedleStatusOK \<and> Data n = [0xAA]"
proof -
  let ?r = "encoded 6 1 7 42 [0xAA]"
  have p: "sint (8 - rem32 (33 + (of_nat (length [0xAA :: byte]) :: int32)) 8) = int 6"
    by (simp add: rem32_def signed_modulo_int_def)
  from parse_encoded [of "[0xAA]" 6 7 42 "[]", OF _ _ p]
  obtain h n where h: "ParseHeader emptyNeedle (take 25 ?r) = Inr h"
    and n: "ParseData h (drop 25 ?r) = Inr n"
           "Key n = 7" "Cookie n = 42" "Flag n = NeedleStatusOK" "Data n = [0xAA]"
    by auto
  have ri: "readInto ?r (replicate 40 0) = ?r"
    by (simp add: readInto_def length_encoded)
  have "readNeedle exampleStorage exampleVolume 1 40 (replicate 40 0) = Inr n"
    by (simp add: readNeedle_def exampleStorage_def sliceTo_def sliceFrom_def ri
          length_encoded h n(1))
  thus ?thesis using n by blast
qed

text \<open>
  \<open>Get_outcomes\<close> at the example: the needle is read back with its cookie, refused with
  another cookie, and an absent key gives NoNeedle.
\<close>

theorem Get_outcomes_witness:
  "needles exampleVolume 7 = Some (NewNeedleCache 1 40)
   \<and> fst (Value (NewNeedleCache 1 40)) \<noteq> NeedleCacheDelOffset
   \<and> (\<exists>n. readNeedle exampleStorage exampleVolume 1 40 (replicate 40 0) = Inr n)
   \<and> Get exampleStorage exampleVolume 7 42 (replicate 40 0) = (Inr [0xAA], exampleVolume)
   \<and> Get exampleStorage exampleVolume 7 43 (replicate 40 0) = (Inl ErrNeedleCookie, exampleVolume)
   \<and> fst (Get exampleStorage exampleVolume 8 42 (replicate 40 0)) = Inl ErrNoNeedle"
proof -
  obtain n where n: "readNeedle exampleStorage exampleVolume 1 40 (replicate 40 0) = Inr n"
      "Key n = 7" "Cookie n = 42" "Flag n = NeedleStatusOK" "Data n = [0xAA]"
    using readNeedle_example by blast
  have c: "needles exampleVolume 7 = Some (NewNeedleCache 1 40)"
    by (simp add: exampleVolume_def)
  have o: "fst (Value (NewNeedleCache 1 40)) \<noteq> NeedleCacheDelOffset"
    by (simp add: Value_example)
  have r: "readNeedle exampleStorage exampleVolume (fst (Value (NewNeedleCache 1 40)))
             (snd (Value (NewNeedleCache 1 40))) (replicate 40 0) = Inr n"
    using n(1) by (simp add: Value_example)
  have g1: "Get exampleStorage exampleVolume 7 42 (replicate 40 0) = (Inr [0xAA], exampleVolume)"
    using Get_outcomes [of exampleStorage exampleVolume 7 42 "replicate 40 0"] c o r n
    by simp
  have g2: "Get exampleStorage exampleVolume 7 43 (replicate 40 0)
              = (Inl ErrNeedleCookie, exampleVolume)"
    using Get_outcomes [of exampleStorage exampleVolume 7 43 "replicate 40 0"] c o r n
    by simp
  have g3: "fst (Get exampleStorage exampleVolume 8 42 (replicate 40 0)) = Inl ErrNoNeedle"
    using Get_outcomes [of exampleStorage exampleVolume 8 42 "replicate 40 0"]
    by (simp add: exampleVolume_def)
  show ?thesis
    using c o n(1) g1 g2 g3 by blast
qed




text \<open>
  C7 as stated fails when the delete queue is full: with 10240 offsets queued, \<open>Add\<close> of
  the key 7, whose entry holds the offset 1, replaces the entry but posts nothing: the
  queue is unchanged, the offset 1 is not in it, and the call returns the VolumeDel error.
\<close>

theorem full_queue_counterexample:
  "needles (exampleVolume\<lparr>signal := replicate 10240 9\<rparr>) 7 = Some (NewNeedleCache 1 40)
   \<and> Value (NewNeedleCache 1 40) = (1, 40)
   \<and> Add exampleStorage (exampleVolume\<lparr>signal := replicate 10240 9\<rparr>) 7 42 [0xBB]
       = (Some ErrVolumeDel,
          exampleVolume\<lparr>signal := replicate 10240 9,
                         needles := [7 \<mapsto> NewNeedleCache 5 40]\<rparr>)
   \<and> 1 \<notin> set (replicate 10240 (9 :: uint32))"
  by (simp add: Value_example Add_def asyncDel_def exampleVolume_def exampleStorage_def)

text \<open>
  \<open>Del_of_tombstone_stops_del\<close> at the example: the second \<open>Del\<close> of the key 7 posts
  the offset 0 behind the offset 1, and the goroutine that receives them returns with the
  offset 1 still in its batch, whatever follows.
\<close>

theorem Del_of_tombstone_stops_del_witness:
  "needles (snd (Del exampleVolume 7)) 7 = Some (NewNeedleCache NeedleCacheDelOffset 40)
   \<and> fst (Value (NewNeedleCache NeedleCacheDelOffset 40)) = NeedleCacheDelOffset
   \<and> length (signal (snd (Del exampleVolume 7))) < volumeDelChNum
   \<and> fst (Del (snd (Del exampleVolume 7)) 7) = None
   \<and> signal (snd (Del (snd (Del exampleVolume 7)) 7)) = [1, volumeFinish]
   \<and> del exampleStorage ([Recv 1] @ Recv volumeFinish # [Recv 5, Timer]) [] ()
       = del exampleStorage ([Recv 1] @ [Recv volumeFinish]) [] ()
   \<and> del exampleStorage ([Recv 1] @ [Recv volumeFinish]) [] () = (True, [1], ())"
proof -
  have t: "Value (NewNeedleCache 0 40) = (0, 40)"
    using Value_tombstone [of 40] by simp
  have n: "needles (snd (Del exampleVolume 7)) 7 = Some (NewNeedleCache NeedleCacheDelOffset 40)"
    by (simp add: Del_needles exampleVolume_def Value_example)
  have o: "fst (Value (NewNeedleCache NeedleCacheDelOffset 40)) = NeedleCacheDelOffset"
    by (simp add: t)
  have s1: "signal (snd (Del exampleVolume 7)) = [1]"
    by (simp add: Del_def asyncDel_def exampleVolume_def Value_example)
  have l: "length (signal (snd (Del exampleVolume 7))) < volumeDelChNum"
    by (simp add: s1)
  note th = Del_of_tombstone_stops_del [of "snd (Del exampleVolume 7)" 7 exampleStorage
              "[Recv 1]" "[]" "()" "[Recv 5, Timer]"]
  from th n o l have d: "fst (Del (snd (Del exampleVolume 7)) 7) = None"
    "signal (snd (Del (snd (Del exampleVolume 7)) 7)) = signal (snd (Del exampleVolume 7)) @ [volumeFinish]"
    by blast+
  from th have e: "del exampleStorage ([Recv 1] @ Recv volumeFinish # [Recv 5, Timer]) [] ()
       = del exampleStorage ([Recv 1] @ [Recv volumeFinish]) [] ()"
    by blast
  have r: "del exampleStorage ([Recv 1] @ [Recv volumeFinish]) [] () = (True, [1], ())"
    by simp
  show ?thesis
    using n o l d e r by (simp add: s1)
qed

end
